theory Spec2Isabelle
  imports Complex_Main "HOL-Library.Product_Lexorder" "HOL-Library.Multiset"
begin

section \<open>Data model\<close>

text \<open>
  The pipeline works on pandas data frames.  A frame is modelled as the list of its rows in
  positional order.  A float cell of a frame is a \<open>real option\<close>: \<open>None\<close> is the missing
  value (NaN, or NaT in a date column), \<open>Some x\<close> a finite number.  In the columns, finite
  floats are idealised as reals, so rounding and the infinities are outside the model
  there.  A date is the integer timestamp pandas keeps for it.

  \<open>obs\<close> is a row of the frame \<open>buildFeatureMatrix\<close> receives: its index label and the
  columns \<open>date\<close> and \<open>value\<close>.  \<open>val\<close> holds the cell as
  \<open>pd.to_numeric(errors="coerce")\<close> reads it, so a cell that is not a number is \<open>None\<close>.
  \<open>frow\<close> adds the columns the function computes.  The columns \<open>r_lag_k\<close>,
  \<open>r_roll_mean_w\<close> and \<open>r_roll_std_w\<close> are kept as lists, one entry per element of
  \<open>lags\<close> and of \<open>windows\<close> in the order given.  Columns of the input other than
  \<open>date\<close> and \<open>value\<close> are not modelled.
\<close>

datatype error = ValueError | OverflowError

type_synonym series = "real option list"

record obs =
  idx :: int
  date :: "int option"
  val :: "real option"

record frow = obs +
  log_price :: "real option"
  log_return :: "real option"
  r_lag :: "real option list"
  r_roll_mean :: "real option list"
  r_roll_std :: "real option list"
  y_next_return :: "real option"

section \<open>features.py\<close>

subsection \<open>The pandas operations used\<close>

text \<open>
  \<open>df.sort_values("date")\<close> computes from the \<open>date\<close> column alone the order in
  which the rows are to be taken, ascending with the missing dates last
  (\<open>na_position="last"\<close>), and returns the rows in that order.  The order is an argsort
  of the dates by pandas' default \<open>quicksort\<close>, which is not stable: where it puts the
  rows of equal date is decided inside numpy and by nothing in the repository.  The argsort
  is therefore a parameter \<open>arg\<close> of the model, and \<open>argsort_ok\<close> is what is known of
  it: for every list of keys it returns the positions \<open>0 .. n - 1\<close>, each once, in an
  order that makes the keys ascend.  \<open>argsort_stable\<close> keeps the positions of equal
  keys in their order and \<open>argsort_rev\<close> reverses them; both are such argsorts.
\<close>

definition date_key :: "int option \<Rightarrow> nat \<times> int" where
  "date_key d = (case d of None \<Rightarrow> (1, 0) | Some t \<Rightarrow> (0, t))"

type_synonym argsort = "(nat \<times> int) list \<Rightarrow> nat list"

definition argsort_ok :: "argsort \<Rightarrow> bool" where
  "argsort_ok arg \<longleftrightarrow>
     (\<forall>ks. mset (arg ks) = mset [0..<length ks] \<and> sorted (map ((!) ks) (arg ks)))"

definition sort_values :: "argsort \<Rightarrow> obs list \<Rightarrow> obs list" where
  "sort_values arg df = map ((!) df) (arg (map (\<lambda>r. date_key (date r)) df))"

definition argsort_stable :: argsort where
  "argsort_stable ks = sort_key ((!) ks) [0..<length ks]"

definition argsort_rev :: argsort where
  "argsort_rev ks = sort_key ((!) ks) (rev [0..<length ks])"

text \<open>
  Integers handed to numpy must fit a C \<open>int64\<close>; beyond it the conversion raises
  \<open>OverflowError\<close>.
\<close>

definition in_int64 :: "int \<Rightarrow> bool" where
  "in_int64 k \<longleftrightarrow> - (2 ^ 63) \<le> k \<and> k < 2 ^ 63"

text \<open>Subtraction of float cells: missing if either side is.\<close>

definition fsub :: "real option \<Rightarrow> real option \<Rightarrow> real option" where
  "fsub a b = (case a of None \<Rightarrow> None | Some x \<Rightarrow> (case b of None \<Rightarrow> None | Some y \<Rightarrow> Some (x - y)))"

text \<open>\<open>Series.diff()\<close>: the difference with the previous position, missing at position 0.\<close>

definition diff :: "series \<Rightarrow> series" where
  "diff xs = map (\<lambda>t. if t = 0 then None else fsub (xs ! t) (xs ! (t - 1))) [0..<length xs]"

text \<open>
  \<open>Series.shift(k)\<close>.  A shift by 0 and a shift of an empty series return a copy.
  Otherwise \<open>k\<close> is converted for numpy, which fails outside \<open>int64\<close>, and position
  \<open>t\<close> receives the cell of position \<open>t - k\<close> (\<open>shifted\<close>), missing when that position
  is outside the series.  A negative \<open>k\<close> moves later cells to earlier positions.
\<close>

definition shifted :: "int \<Rightarrow> series \<Rightarrow> series" where
  "shifted k xs =
     map (\<lambda>t. let j = int t - k in
               if 0 \<le> j \<and> j < int (length xs) then xs ! nat j else None)
         [0..<length xs]"

definition shift :: "int \<Rightarrow> series \<Rightarrow> error + series" where
  "shift k xs =
     (if k = 0 \<or> xs = [] then Inr xs
      else if \<not> in_int64 k then Inl OverflowError
      else Inr (shifted k xs))"

text \<open>
  \<open>Series.rolling(window=w)\<close>: the constructor refuses a negative window with
  \<open>ValueError\<close> and accepts any \<open>w \<ge> 0\<close>.  \<open>mean()\<close> and \<open>std()\<close> return a copy of
  an empty series; on any other they compute the window bounds in \<open>int64\<close>, which fails
  for a window beyond it.  The window of position \<open>t\<close> is the positions
  \<open>max 0 (t + 1 - w) .. t\<close>; \<open>observed\<close> keeps the cells of it that are not missing.
  \<open>min_periods\<close> defaults to \<open>w\<close>: the result is missing unless at least \<open>w\<close> cells
  are observed.  \<open>mean\<close> needs one observation at least; \<open>std\<close> has \<open>ddof = 1\<close> and
  needs more than one.
\<close>

definition rolling :: "int \<Rightarrow> error + nat" where
  "rolling w = (if w < 0 then Inl ValueError else Inr (nat w))"

definition observed :: "nat \<Rightarrow> series \<Rightarrow> nat \<Rightarrow> real list" where
  "observed w xs t = map the (filter (\<lambda>c. c \<noteq> None) (drop (Suc t - w) (take (Suc t) xs)))"

definition rolled_mean :: "nat \<Rightarrow> series \<Rightarrow> series" where
  "rolled_mean w xs =
     map (\<lambda>t. let obs = observed w xs t; nobs = length obs in
               if w \<le> nobs \<and> 0 < nobs then Some (sum_list obs / real nobs) else None)
         [0..<length xs]"

definition rolled_std :: "nat \<Rightarrow> series \<Rightarrow> series" where
  "rolled_std w xs =
     map (\<lambda>t. let obs = observed w xs t; nobs = length obs;
                   m = sum_list obs / real nobs;
                   ssqdm = sum_list (map (\<lambda>x. (x - m)\<^sup>2) obs) in
               if w \<le> nobs \<and> 1 < nobs then Some (sqrt (ssqdm / real (nobs - 1))) else None)
         [0..<length xs]"

definition rolling_mean :: "nat \<Rightarrow> series \<Rightarrow> error + series" where
  "rolling_mean w xs =
     (if xs = [] then Inr xs
      else if \<not> in_int64 (int w) then Inl OverflowError
      else Inr (rolled_mean w xs))"

definition rolling_std :: "nat \<Rightarrow> series \<Rightarrow> error + series" where
  "rolling_std w xs =
     (if xs = [] then Inr xs
      else if \<not> in_int64 (int w) then Inl OverflowError
      else Inr (rolled_std w xs))"

text \<open>
  \<open>df.dropna()\<close> keeps the rows with no missing cell in any column, and
  \<open>reset_index(drop=True)\<close> relabels the rows \<open>0, 1, ...\<close>.
\<close>

definition row_complete :: "frow \<Rightarrow> bool" where
  "row_complete r \<longleftrightarrow>
     date r \<noteq> None \<and> val r \<noteq> None \<and> log_price r \<noteq> None \<and> log_return r \<noteq> None \<and>
     list_all (\<lambda>c. c \<noteq> None) (r_lag r) \<and>
     list_all (\<lambda>c. c \<noteq> None) (r_roll_mean r) \<and>
     list_all (\<lambda>c. c \<noteq> None) (r_roll_std r) \<and>
     y_next_return r \<noteq> None"

definition dropna :: "frow list \<Rightarrow> frow list" where
  "dropna df = filter row_complete df"

definition reset_index :: "frow list \<Rightarrow> frow list" where
  "reset_index df = map (\<lambda>t. (df ! t)\<lparr>idx := int t\<rparr>) [0..<length df]"

subsection \<open>buildFeatureMatrix\<close>

text \<open>
  Lines 38 to 43: sort by date, coerce \<open>value\<close> to a number, drop the rows where it is
  missing, keep the rows where it is positive.
\<close>

definition clean :: "argsort \<Rightarrow> obs list \<Rightarrow> obs list" where
  "clean arg df =
     filter (\<lambda>r. case val r of None \<Rightarrow> False | Some v \<Rightarrow> 0 < v) (sort_values arg df)"

text \<open>
  Lines 45 and 46: the columns \<open>log_price\<close> and \<open>log_return\<close>.  \<open>np.log\<close> is
  only applied to the positive values that line 43 keeps.
\<close>

definition log_price_col :: "obs list \<Rightarrow> series" where
  "log_price_col s = map (\<lambda>r. map_option ln (val r)) s"

definition log_return_col :: "obs list \<Rightarrow> series" where
  "log_return_col s = diff (log_price_col s)"

text \<open>
  Lines 48 and 49: the loop over \<open>lags\<close>, which stops at the first lag that \<open>shift\<close>
  refuses.  Lines 51 to 53: the loop over \<open>windows\<close>, which stops at the first window
  that \<open>rolling\<close>, \<open>mean\<close> or \<open>std\<close> refuses, and returns the pair of columns of each
  window.
\<close>

fun lag_cols :: "int list \<Rightarrow> series \<Rightarrow> error + series list" where
  "lag_cols [] lr = Inr []"
| "lag_cols (k # ks) lr =
     (case shift k lr of
        Inl e \<Rightarrow> Inl e
      | Inr c \<Rightarrow> (case lag_cols ks lr of Inl e \<Rightarrow> Inl e | Inr cs \<Rightarrow> Inr (c # cs)))"

fun roll_cols :: "int list \<Rightarrow> series \<Rightarrow> error + (series \<times> series) list" where
  "roll_cols [] lr = Inr []"
| "roll_cols (w # ws) lr =
     (case rolling w of
        Inl e \<Rightarrow> Inl e
      | Inr n \<Rightarrow>
          (case rolling_mean n lr of
             Inl e \<Rightarrow> Inl e
           | Inr m \<Rightarrow>
               (case rolling_std n lr of
                  Inl e \<Rightarrow> Inl e
                | Inr s \<Rightarrow>
                    (case roll_cols ws lr of
                       Inl e \<Rightarrow> Inl e
                     | Inr cs \<Rightarrow> Inr ((m, s) # cs)))))"

text \<open>
  Lines 38 to 55: the frame before \<open>dropna\<close>.  A lag or a window given twice writes the
  same column twice, and the lists here then hold the same cell twice.
\<close>

definition feature_table ::
    "argsort \<Rightarrow> obs list \<Rightarrow> int list \<Rightarrow> int list \<Rightarrow> error + frow list" where
  "feature_table arg df lags windows =
     (let s = clean arg df;
          lp = log_price_col s;
          lr = log_return_col s
      in case lag_cols lags lr of
           Inl e \<Rightarrow> Inl e
         | Inr lagged \<Rightarrow>
             (case roll_cols windows lr of
                Inl e \<Rightarrow> Inl e
              | Inr rolls \<Rightarrow>
                  (case shift (- 1) lr of
                     Inl e \<Rightarrow> Inl e
                   | Inr y \<Rightarrow>
                       Inr (map (\<lambda>t. \<lparr>idx = idx (s ! t), date = date (s ! t), val = val (s ! t),
                                      log_price = lp ! t, log_return = lr ! t,
                                      r_lag = map (\<lambda>c. c ! t) lagged,
                                      r_roll_mean = map (\<lambda>c. fst c ! t) rolls,
                                      r_roll_std = map (\<lambda>c. snd c ! t) rolls,
                                      y_next_return = y ! t\<rparr>)
                              [0..<length s]))))"

definition buildFeatureMatrix ::
    "argsort \<Rightarrow> obs list \<Rightarrow> int list \<Rightarrow> int list \<Rightarrow> error + frow list" where
  "buildFeatureMatrix arg df lags windows =
     (case feature_table arg df lags windows of
        Inl e \<Rightarrow> Inl e
      | Inr tab \<Rightarrow> Inr (reset_index (dropna tab)))"

text \<open>
  The rows of the frame before \<open>dropna\<close> in which the log return, every lag feature,
  every rolling feature and the target are present, and the first and last position of
  such a row.
\<close>

definition feats_defined :: "frow \<Rightarrow> bool" where
  "feats_defined r \<longleftrightarrow>
     log_return r \<noteq> None \<and>
     list_all (\<lambda>c. c \<noteq> None) (r_lag r) \<and>
     list_all (\<lambda>c. c \<noteq> None) (r_roll_mean r) \<and>
     list_all (\<lambda>c. c \<noteq> None) (r_roll_std r) \<and>
     y_next_return r \<noteq> None"

definition valid_offsets :: "frow list \<Rightarrow> nat list" where
  "valid_offsets tab = filter (\<lambda>t. feats_defined (tab ! t)) [0..<length tab]"



text \<open>A frame is ascending by date when every date is present and none is earlier than the one before.\<close>

definition ascending_by_date :: "('a obs_scheme) list \<Rightarrow> bool" where
  "ascending_by_date df \<longleftrightarrow>
     list_all (\<lambda>r. date r \<noteq> None) df \<and> sorted (map (\<lambda>r. the (date r)) df)"

text \<open>
  A series of \<open>n\<close> observations at consecutive dates, the first of value \<open>v0\<close> and
  each 1% above the previous one.
\<close>

definition growth_series :: "real \<Rightarrow> nat \<Rightarrow> obs list" where
  "growth_series v0 n =
     map (\<lambda>i. \<lparr>idx = int i, date = Some (int i), val = Some (v0 * (101 / 100) ^ i)\<rparr>) [0..<n]"

text \<open>
  Seventeen observations in date order, the rows at positions 8 and 9 with the same date
  and different values; and the same observations with those two rows exchanged, which
  are in date order as well.
\<close>

definition tied_series :: "obs list" where
  "tied_series =
     map (\<lambda>i. \<lparr>idx = int i, date = Some (if i \<le> 8 then int i else int i - 1),
                val = Some (100 + real i)\<rparr>) [0..<17]"

definition tied_series_swapped :: "obs list" where
  "tied_series_swapped = tied_series[8 := tied_series ! 9, 9 := tied_series ! 8]"

section \<open>train_eval.py\<close>

subsection \<open>Python floats\<close>

text \<open>
  \<open>test_size\<close> is a Python float, an IEEE double, and line 30 multiplies and rounds in
  floating point.  \<open>pyfloat\<close> is a double: a finite value, an infinity or NaN.
  \<open>nearest_double x\<close> is the rounding of the real \<open>x\<close> to 53 significant binary digits
  (to a multiple of \<open>2 ^ -1074\<close> below the normal range), a tie going to the even
  multiple; \<open>to_double\<close> adds the overflow to infinity.  \<open>is_double\<close> says that a
  \<open>pyfloat\<close> is a value a double can hold.
\<close>

datatype pyfloat = Finite real | PosInf | NegInf | NaN

definition round_half_even :: "real \<Rightarrow> int" where
  "round_half_even x =
     (let f = \<lfloor>x\<rfloor>; d = x - of_int f in
      if d < 1 / 2 then f else if 1 / 2 < d then f + 1 else if even f then f else f + 1)"

definition expo :: "real \<Rightarrow> int" where
  "expo x = max (- 1074) (\<lfloor>log 2 \<bar>x\<bar>\<rfloor> - 52)"

definition nearest_double :: "real \<Rightarrow> real" where
  "nearest_double x = of_int (round_half_even (x / 2 powi expo x)) * 2 powi expo x"

definition to_double :: "real \<Rightarrow> pyfloat" where
  "to_double x =
     (let r = nearest_double x in
      if 2 ^ 1024 \<le> r then PosInf else if r \<le> - (2 ^ 1024) then NegInf else Finite r)"

definition is_double :: "pyfloat \<Rightarrow> bool" where
  "is_double x = (case x of Finite r \<Rightarrow> nearest_double r = r \<and> \<bar>r\<bar> < 2 ^ 1024 | _ \<Rightarrow> True)"

text \<open>
  The conversion of a Python int to float (\<open>OverflowError\<close> when it is too large), the
  product of two floats, and \<open>round\<close> of a float, which refuses NaN with \<open>ValueError\<close>
  and the infinities with \<open>OverflowError\<close> and rounds a tie to the even integer.
\<close>

definition float_of_int :: "int \<Rightarrow> error + pyfloat" where
  "float_of_int n = (case to_double (of_int n) of Finite r \<Rightarrow> Inr (Finite r) | _ \<Rightarrow> Inl OverflowError)"

fun fmul :: "pyfloat \<Rightarrow> pyfloat \<Rightarrow> pyfloat" where
  "fmul NaN y = NaN"
| "fmul x NaN = NaN"
| "fmul (Finite a) (Finite b) = to_double (a * b)"
| "fmul (Finite a) PosInf = (if a = 0 then NaN else if 0 < a then PosInf else NegInf)"
| "fmul (Finite a) NegInf = (if a = 0 then NaN else if 0 < a then NegInf else PosInf)"
| "fmul PosInf (Finite b) = (if b = 0 then NaN else if 0 < b then PosInf else NegInf)"
| "fmul NegInf (Finite b) = (if b = 0 then NaN else if 0 < b then NegInf else PosInf)"
| "fmul PosInf PosInf = PosInf"
| "fmul PosInf NegInf = NegInf"
| "fmul NegInf PosInf = NegInf"
| "fmul NegInf NegInf = PosInf"

fun py_round :: "pyfloat \<Rightarrow> error + int" where
  "py_round (Finite x) = Inr (round_half_even x)"
| "py_round NaN = Inl ValueError"
| "py_round PosInf = Inl OverflowError"
| "py_round NegInf = Inl OverflowError"

subsection \<open>timeSplit\<close>

text \<open>
  Lines 29 and 30: \<open>n_test = max(1, int(round(n * test_size)))\<close>, where \<open>n\<close> is
  converted to float for the product.
\<close>

definition test_rows :: "nat \<Rightarrow> pyfloat \<Rightarrow> error + int" where
  "test_rows n test_size =
     (case float_of_int (int n) of
        Inl e \<Rightarrow> Inl e
      | Inr fn \<Rightarrow>
          (case py_round (fmul fn test_size) of
             Inl e \<Rightarrow> Inl e
           | Inr r \<Rightarrow> Inr (max 1 r)))"

text \<open>
  The position a slice bound \<open>k\<close> denotes in a sequence of \<open>n\<close> elements: a negative
  bound counts from the end, and the result is clipped to \<open>0 .. n\<close>.
\<close>

definition slice_bound :: "nat \<Rightarrow> int \<Rightarrow> nat" where
  "slice_bound n k = (if k < 0 then nat (max 0 (int n + k)) else min n (nat k))"

text \<open>
  \<open>timeSplit\<close>, lines 29 to 33.  It has no \<open>raise\<close> of its own; it fails when
  \<open>round\<close> does.
\<close>

definition timeSplit :: "'a list \<Rightarrow> pyfloat \<Rightarrow> error + 'a list \<times> 'a list" where
  "timeSplit df test_size =
     (case test_rows (length df) test_size of
        Inl e \<Rightarrow> Inl e
      | Inr n_test \<Rightarrow>
          let b = slice_bound (length df) (int (length df) - n_test)
          in Inr (take b df, drop b df))"

text \<open>
  \<open>Series.max()\<close> and \<open>Series.min()\<close> of the date column, as \<open>main\<close> uses them
  for the test period: missing dates are skipped and the result is missing when nothing is
  left.  A comparison with a missing timestamp is false.
\<close>

definition dates :: "('a obs_scheme) list \<Rightarrow> int list" where
  "dates df = map the (filter (\<lambda>d. d \<noteq> None) (map date df))"

definition date_max :: "('a obs_scheme) list \<Rightarrow> int option" where
  "date_max df = (if dates df = [] then None else Some (Max (set (dates df))))"

definition date_min :: "('a obs_scheme) list \<Rightarrow> int option" where
  "date_min df = (if dates df = [] then None else Some (Min (set (dates df))))"

definition ts_less :: "int option \<Rightarrow> int option \<Rightarrow> bool" where
  "ts_less a b = (case a of None \<Rightarrow> False | Some x \<Rightarrow> (case b of None \<Rightarrow> False | Some y \<Rightarrow> x < y))"

text \<open>
  The order of a split by time: \<open>max(train.date) < min(test.date)\<close>, on what
  \<open>timeSplit\<close> returns.
\<close>

definition split_ordered :: "error + ('a obs_scheme) list \<times> ('a obs_scheme) list \<Rightarrow> bool" where
  "split_ordered r =
     (case r of Inl e \<Rightarrow> False | Inr (train, test) \<Rightarrow> ts_less (date_max train) (date_min test))"

text \<open>
  \<open>sklearn.metrics.mean_absolute_error\<close> and \<open>mean_squared_error\<close> on two
  one-dimensional arrays: the average of the absolute, respectively squared, differences.
  Both refuse arrays of different lengths and empty arrays with \<open>ValueError\<close>.
\<close>

definition mean_absolute_error :: "real list \<Rightarrow> real list \<Rightarrow> error + real" where
  "mean_absolute_error y_true y_pred =
     (if length y_true \<noteq> length y_pred \<or> y_true = [] then Inl ValueError
      else Inr (sum_list (map2 (\<lambda>t p. \<bar>p - t\<bar>) y_true y_pred) / real (length y_true)))"

definition mean_squared_error :: "real list \<Rightarrow> real list \<Rightarrow> error + real" where
  "mean_squared_error y_true y_pred =
     (if length y_true \<noteq> length y_pred \<or> y_true = [] then Inl ValueError
      else Inr (sum_list (map2 (\<lambda>t p. (t - p)\<^sup>2) y_true y_pred) / real (length y_true)))"

text \<open>Lines 74 and 75 of \<open>main\<close>: the pair \<open>(mae, rmse)\<close>.\<close>

definition evaluate :: "real list \<Rightarrow> real list \<Rightarrow> error + real \<times> real" where
  "evaluate y_test y_pred =
     (case mean_absolute_error y_test y_pred of
        Inl e \<Rightarrow> Inl e
      | Inr mae \<Rightarrow>
          (case mean_squared_error y_test y_pred of
             Inl e \<Rightarrow> Inl e
           | Inr mse \<Rightarrow> Inr (mae, sqrt mse)))"

text \<open>
  Four observations of value 1, two of them with the same date, and the feature table with
  two rows of the same date that \<open>buildFeatureMatrix\<close> returns for them with no lags and
  no windows.
\<close>

definition flat_series :: "obs list" where
  "flat_series =
     [\<lparr>idx = 0, date = Some 0, val = Some 1\<rparr>, \<lparr>idx = 1, date = Some 1, val = Some 1\<rparr>,
      \<lparr>idx = 2, date = Some 1, val = Some 1\<rparr>, \<lparr>idx = 3, date = Some 2, val = Some 1\<rparr>]"

definition tied_rows :: "frow list" where
  "tied_rows =
     [\<lparr>idx = 0, date = Some 1, val = Some 1, log_price = Some 0, log_return = Some 0,
       r_lag = [], r_roll_mean = [], r_roll_std = [], y_next_return = Some 0\<rparr>,
      \<lparr>idx = 1, date = Some 1, val = Some 1, log_price = Some 0, log_return = Some 0,
       r_lag = [], r_roll_mean = [], r_roll_std = [], y_next_return = Some 0\<rparr>]"

text \<open>Two observations with increasing dates.\<close>

definition two_rows :: "obs list" where
  "two_rows = [\<lparr>idx = 0, date = Some 1, val = Some 1\<rparr>, \<lparr>idx = 1, date = Some 2, val = Some 2\<rparr>]"


section \<open>Properties of the float operations\<close>

lemma pow2_split: "e \<le> g \<Longrightarrow> (2::real) powi g = 2 ^ nat (g - e) * 2 powi e"
proof -
  assume "e \<le> g"
  then have "g = int (nat (g - e)) + e" by simp
  then have "(2::real) powi g = 2 powi (int (nat (g - e)) + e)" by (rule arg_cong)
  also have "\<dots> = 2 powi int (nat (g - e)) * 2 powi e" by (rule power_int_add) simp
  also have "\<dots> = 2 ^ nat (g - e) * 2 powi e" by (simp only: power_int_of_nat)
  finally show ?thesis .
qed

lemma pow2_powr: "(2::real) powr of_int e = 2 powi e"
  by (simp add: powr_real_of_int')

lemma rhe_floor: "\<lfloor>x\<rfloor> \<le> round_half_even x"
  by (simp add: round_half_even_def Let_def)

lemma rhe_floor_Suc: "round_half_even x \<le> \<lfloor>x\<rfloor> + 1"
  by (simp add: round_half_even_def Let_def)

lemma rhe_of_int [simp]: "round_half_even (of_int k) = k"
  by (simp add: round_half_even_def Let_def)

lemma rhe_zero [simp]: "round_half_even 0 = 0"
  using rhe_of_int [of 0] by simp

lemma rhe_ge: "of_int N \<le> x \<Longrightarrow> N \<le> round_half_even x"
proof -
  assume "of_int N \<le> x"
  then have "N \<le> \<lfloor>x\<rfloor>" by (simp only: le_floor_iff)
  with rhe_floor [of x] show ?thesis by linarith
qed

lemma rhe_le: "x \<le> of_int N \<Longrightarrow> round_half_even x \<le> N"
proof (cases "x = of_int N")
  case True
  then show ?thesis by simp
next
  case False
  assume "x \<le> of_int N"
  with False have "x < of_int N" by simp
  then have "\<lfloor>x\<rfloor> < N" by (simp add: floor_less_iff)
  with rhe_floor_Suc [of x] show ?thesis by linarith
qed

lemma rhe_below_half: "x < of_int N - 1 / 2 \<Longrightarrow> round_half_even x \<le> N - 1"
proof -
  assume a: "x < of_int N - 1 / 2"
  then have "x < of_int N" by linarith
  then have f: "\<lfloor>x\<rfloor> \<le> N - 1" by (simp add: floor_less_iff)
  show ?thesis
  proof (cases "\<lfloor>x\<rfloor> = N - 1")
    case True
    then have "x - of_int \<lfloor>x\<rfloor> < 1 / 2" using a by simp
    then show ?thesis using True by (simp add: round_half_even_def Let_def)
  next
    case False
    with f have "\<lfloor>x\<rfloor> + 1 \<le> N - 1" by linarith
    with rhe_floor_Suc [of x] show ?thesis by linarith
  qed
qed

lemma rhe_above_half: "of_int (round_half_even x) - 1 / 2 \<le> x"
proof -
  have a: "of_int \<lfloor>x\<rfloor> \<le> x" by simp
  show ?thesis
  proof (cases "x - of_int \<lfloor>x\<rfloor> < 1 / 2")
    case True
    then have "round_half_even x = \<lfloor>x\<rfloor>" by (simp add: round_half_even_def Let_def)
    with a show ?thesis by linarith
  next
    case False
    then have "of_int (\<lfloor>x\<rfloor> + 1) - 1 / 2 \<le> x" by simp
    moreover have "(of_int (round_half_even x) :: real) \<le> of_int (\<lfloor>x\<rfloor> + 1)"
      using rhe_floor_Suc [of x] by (simp only: of_int_le_iff)
    ultimately show ?thesis by linarith
  qed
qed

lemma floor_log2_le:
  assumes "0 < x" and "x < 2 powi (k + 1)"
  shows "\<lfloor>log 2 x\<rfloor> \<le> k"
proof -
  have "x < 2 powr of_int (k + 1)" using assms(2) by (simp only: pow2_powr)
  then have "log 2 x < of_int (k + 1)" using assms(1) by (simp add: log_less_iff)
  then have "\<lfloor>log 2 x\<rfloor> < k + 1" by (simp only: floor_less_iff)
  then show ?thesis by simp
qed

lemma floor_log2_ge:
  assumes "2 powi k \<le> x"
  shows "k \<le> \<lfloor>log 2 x\<rfloor>"
proof -
  have pos: "0 < x" using assms zero_less_power_int [of "2::real" k] by linarith
  have "2 powr of_int k \<le> x" using assms by (simp only: pow2_powr)
  then have "of_int k \<le> log 2 x" using pos by (simp add: le_log_iff)
  then show ?thesis by (simp only: le_floor_iff)
qed

lemma expo_le:
  assumes "0 < x" and "x < 2 powi (k + 1)" and "- 1074 \<le> g" and "k - 52 \<le> g"
  shows "expo x \<le> g"
  using floor_log2_le [OF assms(1,2)] assms(1,3,4) by (simp add: expo_def)

lemma expo_eq:
  assumes "2 powi k \<le> x" and "x < 2 powi (k + 1)" and "- 1022 \<le> k"
  shows "expo x = k - 52"
proof -
  have pos: "0 < x" using assms(1) zero_less_power_int [of "2::real" k] by linarith
  have "\<lfloor>log 2 x\<rfloor> = k"
    using floor_log2_le [OF pos assms(2)] floor_log2_ge [OF assms(1)] by simp
  with pos assms(3) show ?thesis by (simp add: expo_def)
qed

lemma nearest_on_grid:
  "nearest_double x = of_int (round_half_even (x / 2 powi expo x)) * 2 powi expo x"
  by (simp add: nearest_double_def)

lemma nearest_le_grid:
  assumes "x \<le> of_int G * 2 powi g" and "expo x \<le> g"
  shows "nearest_double x \<le> of_int G * 2 powi g"
proof -
  let ?u = "(2::real) powi expo x"
  have u: "0 < ?u" by simp
  have g: "(2::real) powi g = 2 ^ nat (g - expo x) * ?u" using assms(2) by (rule pow2_split)
  have "x / ?u \<le> of_int (G * 2 ^ nat (g - expo x))"
    using assms(1) u by (simp add: g pos_divide_le_eq mult.assoc)
  then have "round_half_even (x / ?u) \<le> G * 2 ^ nat (g - expo x)" by (rule rhe_le)
  then have "of_int (round_half_even (x / ?u)) \<le> (of_int (G * 2 ^ nat (g - expo x)) :: real)"
    by (simp only: of_int_le_iff)
  then have "of_int (round_half_even (x / ?u)) * ?u \<le> of_int (G * 2 ^ nat (g - expo x)) * ?u"
    using u by (simp only: mult_le_cancel_right_pos)
  then show ?thesis by (simp add: nearest_double_def g mult.assoc)
qed

lemma nearest_ge_grid:
  assumes "of_int G * 2 powi g \<le> x" and "expo x \<le> g"
  shows "of_int G * 2 powi g \<le> nearest_double x"
proof -
  let ?u = "(2::real) powi expo x"
  have u: "0 < ?u" by simp
  have g: "(2::real) powi g = 2 ^ nat (g - expo x) * ?u" using assms(2) by (rule pow2_split)
  have "of_int (G * 2 ^ nat (g - expo x)) \<le> x / ?u"
    using assms(1) u by (simp add: g pos_le_divide_eq mult.assoc)
  then have "G * 2 ^ nat (g - expo x) \<le> round_half_even (x / ?u)" by (rule rhe_ge)
  then have "(of_int (G * 2 ^ nat (g - expo x)) :: real) \<le> of_int (round_half_even (x / ?u))"
    by (simp only: of_int_le_iff)
  then have "of_int (G * 2 ^ nat (g - expo x)) * ?u \<le> of_int (round_half_even (x / ?u)) * ?u"
    using u by (simp only: mult_le_cancel_right_pos)
  then show ?thesis by (simp add: nearest_double_def g mult.assoc)
qed

lemma nearest_zero [simp]: "nearest_double 0 = 0"
  by (simp add: nearest_double_def)

lemma double_below_one:
  assumes "nearest_double f = f" and "0 < f" and "f < 1"
  shows "f \<le> 1 - 1 / 2 ^ 53"
proof (cases "f < 1 / 2")
  case True
  have "(1::real) / 2 \<le> 1 - 1 / 2 ^ 53" by simp
  with True show ?thesis by linarith
next
  case False
  then have lo: "2 powi (- 1) \<le> f" by simp
  have hi: "f < 2 powi (- 1 + 1)" using assms(3) by simp
  have e: "expo f = - 1 - 52" using lo hi by (rule expo_eq) simp
  have u: "(2::real) powi (- 53) = 1 / 2 ^ 53" by (simp add: inverse_eq_divide)
  define M where "M = round_half_even (f / 2 powi expo f)"
  have fM: "f = of_int M / 2 ^ 53"
    using assms(1) by (simp add: nearest_double_def M_def e u)
  with assms(3) have "of_int M < (2 ^ 53 :: real)" by (simp add: divide_less_eq)
  then have "of_int M < (of_int (2 ^ 53) :: real)" by simp
  then have "M < 2 ^ 53" by (simp only: of_int_less_iff)
  then have "M \<le> 2 ^ 53 - 1" by simp
  then have "(of_int M :: real) \<le> of_int (2 ^ 53 - 1)" by (simp only: of_int_le_iff)
  then have "(of_int M :: real) \<le> 2 ^ 53 - 1" by simp
  then have "of_int M / 2 ^ 53 \<le> ((2 ^ 53 - 1) / 2 ^ 53 :: real)"
    by (simp only: divide_le_cancel) simp
  also have "((2 ^ 53 - 1) / 2 ^ 53 :: real) = 1 - 1 / 2 ^ 53" by (simp add: diff_divide_distrib)
  finally show ?thesis by (simp only: fM)
qed

lemma product_bounds:
  fixes n :: int
  assumes n: "1 \<le> n" and f: "nearest_double f = f" "0 < f" "f < 1"
  shows "0 \<le> nearest_double (nearest_double (of_int n) * f)"
    and "nearest_double (nearest_double (of_int n) * f) \<le> of_int n"
proof -
  define N :: real where "N = of_int n"
  define k where "k = \<lfloor>log 2 N\<rfloor>"
  define e where "e = k - 52"
  define u :: real where "u = 2 powi e"
  define M where "M = round_half_even (N / u)"
  define F where "F = nearest_double N"
  define x where "x = F * f"
  have N1: "1 \<le> N" using n by (simp add: N_def)
  have Npos: "0 < N" using N1 by linarith
  have "2 powr of_int k \<le> N \<and> N < 2 powr of_int (k + 1)"
    using floor_log_eq_powr_iff [of N 2 k] Npos by (simp add: k_def)
  then have kN: "2 powi k \<le> N" "N < 2 powi (k + 1)" by (simp_all only: pow2_powr)
  have "2 powi 0 \<le> N" using N1 by simp
  then have k0: "0 \<le> k" unfolding k_def by (rule floor_log2_ge)
  have eN: "expo N = e" unfolding e_def using kN by (rule expo_eq) (use k0 in linarith)
  have upos: "0 < u" by (simp add: u_def)
  have F: "F = of_int M * u" by (simp add: F_def M_def nearest_double_def eN u_def)
  have k52: "(2::real) powi k = 2 ^ 52 * u"
    unfolding u_def using pow2_split [of e k] by (simp add: e_def)
  have k53: "(2::real) powi (k + 1) = 2 ^ 53 * u"
    unfolding u_def using pow2_split [of e "k + 1"] by (simp add: e_def)
  have "of_int (2 ^ 52) \<le> N / u" using kN(1) upos by (simp add: k52 pos_le_divide_eq)
  then have Mlo: "2 ^ 52 \<le> M" unfolding M_def by (rule rhe_ge)
  have Nu: "N / u < 2 ^ 53" using kN(2) upos by (simp add: k53 pos_divide_less_eq)
  then have "N / u \<le> of_int (2 ^ 53)" by simp
  then have Mhi: "M \<le> 2 ^ 53" unfolding M_def by (rule rhe_le)
  have "(of_int M :: real) \<le> of_int (2 ^ 53)" using Mhi by (simp only: of_int_le_iff)
  then have "of_int M * u \<le> 2 ^ 53 * u" using upos by simp
  then have Fhi: "F \<le> 2 powi (k + 1)" by (simp only: F k53)
  have "(of_int (2 ^ 52) :: real) \<le> of_int M" using Mlo by (simp only: of_int_le_iff)
  then have "2 ^ 52 * u \<le> of_int M * u" using upos by simp
  then have "0 < F" using upos by (simp add: F)
  then have xpos: "0 < x" and xF: "x < F" using f(2,3) by (simp_all add: x_def)
  have "x < 2 powi (k + 1)" using xF Fhi by linarith
  then have ex: "expo x \<le> e"
  proof (rule expo_le [OF xpos])
    show "- 1074 \<le> e" using k0 by (simp add: e_def)
    show "k - 52 \<le> e" by (simp add: e_def)
  qed
  have "of_int 0 * 2 powi e \<le> x" using xpos by simp
  then have "of_int 0 * 2 powi e \<le> nearest_double x" using ex by (rule nearest_ge_grid)
  then show "0 \<le> nearest_double (nearest_double (of_int n) * f)"
    by (simp add: x_def F_def N_def)
  have "nearest_double x \<le> N"
  proof (cases "F \<le> N")
    case True
    have "x \<le> of_int M * 2 powi e" using xF by (simp add: F u_def)
    then have "nearest_double x \<le> of_int M * 2 powi e" using ex by (rule nearest_le_grid)
    with True show ?thesis by (simp add: F u_def)
  next
    case False
    then have NF: "N < of_int M * u" by (simp add: F)
    have half: "(of_int M - 1 / 2) * u \<le> N"
    proof -
      have "of_int M - 1 / 2 \<le> N / u" unfolding M_def by (rule rhe_above_half)
      then show ?thesis using upos by (simp add: pos_le_divide_eq)
    qed
    have "N / u < of_int M" using NF upos by (simp add: pos_divide_less_eq)
    with \<open>of_int (2 ^ 52) \<le> N / u\<close> have "(of_int (2 ^ 52) :: real) < of_int M" by linarith
    then have "2 ^ 52 < M" by (simp only: of_int_less_iff)
    then have "2 ^ 52 + 1 \<le> M" by simp
    then have "(of_int (2 ^ 52 + 1) :: real) \<le> of_int M" by (simp only: of_int_le_iff)
    then have Mbig: "(2 ^ 52 + 1 :: real) \<le> of_int M" by simp
    have f1: "f \<le> 1 - 1 / 2 ^ 53" using f by (rule double_below_one)
    have Mu: "0 < of_int M * u" using Mbig upos by (smt (verit) mult_pos_pos zero_less_power)
    have "x \<le> of_int M * u * (1 - 1 / 2 ^ 53)"
      unfolding x_def F using f1 Mu by (simp only: mult_le_cancel_left_pos)
    also have "\<dots> = of_int M * u - (of_int M / 2 ^ 53) * u" by (simp add: algebra_simps)
    also have "\<dots> < of_int M * u - (1 / 2) * u"
    proof -
      have "(1::real) / 2 < of_int M / 2 ^ 53" using Mbig by (simp add: field_simps)
      then have "(1 / 2) * u < (of_int M / 2 ^ 53) * u" using upos by (simp only: mult_less_cancel_right_pos)
      then show ?thesis by linarith
    qed
    finally have xlt: "x < (of_int M - 1 / 2) * u" by (simp add: algebra_simps)
    show ?thesis
    proof (cases "expo x = e")
      case True
      have "x / 2 powi expo x < of_int M - 1 / 2"
        using xlt upos by (simp add: True u_def pos_divide_less_eq)
      then have "round_half_even (x / 2 powi expo x) \<le> M - 1" by (rule rhe_below_half)
      then have "(of_int (round_half_even (x / 2 powi expo x)) :: real) \<le> of_int (M - 1)"
        by (simp only: of_int_le_iff)
      then have "of_int (round_half_even (x / 2 powi expo x)) * u \<le> of_int (M - 1) * u"
        using upos by (simp only: mult_le_cancel_right_pos)
      then have "nearest_double x \<le> of_int (M - 1) * u"
        by (simp add: nearest_double_def True u_def)
      also have "\<dots> \<le> (of_int M - 1 / 2) * u" using upos by simp
      finally show ?thesis using half by linarith
    next
      case False
      with ex have ex1: "expo x \<le> e - 1" by linarith
      have u2: "u = 2 * 2 powi (e - 1)"
        unfolding u_def using pow2_split [of "e - 1" e] by simp
      have g: "(of_int M - 1 / 2) * u = of_int (2 * M - 1) * 2 powi (e - 1)"
        by (simp add: u2 algebra_simps)
      have "x \<le> of_int (2 * M - 1) * 2 powi (e - 1)" using xlt by (simp only: g)
      then have "nearest_double x \<le> of_int (2 * M - 1) * 2 powi (e - 1)"
        using ex1 by (rule nearest_le_grid)
      then have "nearest_double x \<le> (of_int M - 1 / 2) * u" by (simp only: g)
      with half show ?thesis by linarith
    qed
  qed
  then show "nearest_double (nearest_double (of_int n) * f) \<le> of_int n"
    by (simp add: x_def F_def N_def)
qed

lemma expo_abs: "expo \<bar>x\<bar> = expo x"
  by (simp add: expo_def)

lemma nearest_exact:
  assumes "x = of_int m * 2 powi g" and "expo x \<le> g"
  shows "nearest_double x = x"
proof -
  have "nearest_double x \<le> of_int m * 2 powi g"
    using assms by (intro nearest_le_grid) simp_all
  moreover have "of_int m * 2 powi g \<le> nearest_double x"
    using assms by (intro nearest_ge_grid) simp_all
  ultimately show ?thesis using assms(1) by linarith
qed

lemma nearest_small_int:
  assumes "0 \<le> n" and "n < 2 ^ 53"
  shows "nearest_double (of_int n) = of_int n"
proof (cases "n = 0")
  case True
  then show ?thesis by simp
next
  case False
  with assms(1) have pos: "0 < (of_int n :: real)" by simp
  have "(of_int n :: real) < of_int (2 ^ 53)" using assms(2) by (simp only: of_int_less_iff)
  then have "(of_int n :: real) < 2 powi (52 + 1)" by simp
  with pos have "expo (of_int n) \<le> 0" by (rule expo_le) simp_all
  moreover have "(of_int n :: real) = of_int n * 2 powi 0" by simp
  ultimately show ?thesis by (rule nearest_exact [rotated])
qed

lemma float_of_int_nonneg:
  assumes "0 \<le> n" and "n < 2 ^ 63"
  shows "float_of_int n = Inr (Finite (nearest_double (of_int n)))"
    and "0 \<le> nearest_double (of_int n)" and "nearest_double (of_int n) \<le> 2 ^ 63"
proof -
  have lo: "0 \<le> nearest_double (of_int n)"
  proof (cases "n = 0")
    case True
    then show ?thesis by simp
  next
    case False
    with assms(1) have pos: "0 < (of_int n :: real)" by simp
    have "(of_int n :: real) < of_int (2 ^ 63)" using assms(2) by (simp only: of_int_less_iff)
    then have "(of_int n :: real) < 2 powi (62 + 1)" by simp
    with pos have e: "expo (of_int n) \<le> 63" by (rule expo_le) simp_all
    have "of_int 0 * 2 powi 63 \<le> (of_int n :: real)" using pos by simp
    then have "of_int 0 * 2 powi 63 \<le> nearest_double (of_int n)" using e by (rule nearest_ge_grid)
    then show ?thesis by simp
  qed
  have hi: "nearest_double (of_int n) \<le> 2 ^ 63"
  proof (cases "n = 0")
    case True
    then show ?thesis by simp
  next
    case False
    with assms(1) have pos: "0 < (of_int n :: real)" by simp
    have lt: "(of_int n :: real) < of_int (2 ^ 63)" using assms(2) by (simp only: of_int_less_iff)
    then have "(of_int n :: real) < 2 powi (62 + 1)" by simp
    with pos have e: "expo (of_int n) \<le> 63" by (rule expo_le) simp_all
    have "(of_int n :: real) \<le> of_int 1 * 2 powi 63" using lt by simp
    then have "nearest_double (of_int n) \<le> of_int 1 * 2 powi 63" using e by (rule nearest_le_grid)
    then show ?thesis by simp
  qed
  show "0 \<le> nearest_double (of_int n)" by (rule lo)
  show "nearest_double (of_int n) \<le> 2 ^ 63" by (rule hi)
  have "(2 ^ 63 :: real) < 2 ^ 1024" by simp
  with hi have "nearest_double (of_int n) < 2 ^ 1024" by linarith
  with lo show "float_of_int n = Inr (Finite (nearest_double (of_int n)))"
    by (simp add: float_of_int_def to_double_def Let_def)
qed

lemma test_rows_bounds:
  assumes "1 \<le> n" and "n < 2 ^ 63" and "is_double (Finite f)" and "0 < f" and "f < 1"
  obtains k where "test_rows n (Finite f) = Inr k" and "1 \<le> k" and "k \<le> int n"
proof -
  let ?F = "nearest_double (real n)"
  let ?P = "nearest_double (?F * f)"
  have n1: "1 \<le> int n" and n63: "int n < 2 ^ 63" and n0: "0 \<le> int n"
    using assms(1,2) by simp_all
  have d: "nearest_double f = f" using assms(3) by (simp add: is_double_def)
  have P0: "0 \<le> ?P" and Pn: "?P \<le> of_int (int n)"
    using product_bounds [OF n1 d assms(4,5)] by simp_all
  have "(of_int (int n) :: real) < of_int (2 ^ 63)" using n63 by (simp only: of_int_less_iff)
  then have "(of_int (int n) :: real) < 2 ^ 1024" by (simp del: of_int_of_nat_eq)
  with Pn have P1024: "?P < 2 ^ 1024" by linarith
  have fi: "float_of_int (int n) = Inr (Finite ?F)"
    using float_of_int_nonneg(1) [OF n0 n63] by simp
  have mul: "to_double (?F * f) = Finite ?P"
    using P0 P1024 by (simp add: to_double_def Let_def)
  have t: "test_rows n (Finite f) = Inr (max 1 (round_half_even ?P))"
    by (simp add: test_rows_def fi mul)
  have "round_half_even ?P \<le> int n" using Pn by (rule rhe_le)
  with n1 have "max 1 (round_half_even ?P) \<le> int n" by simp
  moreover have "1 \<le> max 1 (round_half_even ?P)" by simp
  ultimately show ?thesis using t by (intro that)
qed

lemma test_rows_exact:
  assumes "n < 2 ^ 53" and "nearest_double (real n * f) = real n * f" and "\<bar>real n * f\<bar> < 2 ^ 1024"
  shows "test_rows n (Finite f) = Inr (max 1 (round_half_even (real n * f)))"
proof -
  have n0: "0 \<le> int n" and n53: "int n < 2 ^ 53" using assms(1) by simp_all
  then have n63: "int n < 2 ^ 63" by simp
  have F: "nearest_double (of_int (int n)) = real n"
    using nearest_small_int [OF n0 n53] by simp
  have fi: "float_of_int (int n) = Inr (Finite (real n))"
    using float_of_int_nonneg(1) [OF n0 n63] by (simp only: F)
  have mul: "to_double (real n * f) = Finite (real n * f)"
    using assms(2,3) by (simp add: to_double_def Let_def abs_less_iff)
  show ?thesis by (simp add: test_rows_def fi mul)
qed

lemma test_rows_ge_1: "test_rows n ts = Inr k \<Longrightarrow> 1 \<le> k"
  by (auto simp: test_rows_def split: sum.splits)

text \<open>Some doubles and row counts, for the instances below.\<close>

lemma is_double_dyadic:
  assumes "0 < x" and "x = of_int m * 2 powi g" and "x < 2 powi (k + 1)"
    and "- 1074 \<le> g" and "k - 52 \<le> g" and "x < 2 ^ 1024"
  shows "is_double (Finite x)" and "nearest_double x = x"
proof -
  have "expo x \<le> g" using assms(1,3,4,5) by (rule expo_le)
  with assms(2) show "nearest_double x = x" by (rule nearest_exact)
  with assms(1,6) show "is_double (Finite x)" by (simp add: is_double_def)
qed

lemma double_half: "is_double (Finite (1 / 2))" "nearest_double (1 / 2) = 1 / 2"
  by (rule is_double_dyadic [where m = 1 and g = "- 1" and k = "- 1"]; simp)+

lemma double_7_8: "is_double (Finite (7 / 8))" "nearest_double (7 / 8) = 7 / 8"
  by (rule is_double_dyadic [where m = 7 and g = "- 3" and k = "- 1"]; simp)+

lemma double_7_4: "nearest_double (7 / 4) = 7 / 4"
  by (rule is_double_dyadic [where m = 7 and g = "- 2" and k = 0]; simp)

lemma rhe_half [simp]: "round_half_even (1 / 2) = 0"
  by (simp add: round_half_even_def Let_def)

lemma rhe_7_4 [simp]: "round_half_even (7 / 4) = 2"
  by (simp add: round_half_even_def Let_def)


lemma test_rows_2_half: "test_rows 2 (Finite (1 / 2)) = Inr 1"
proof -
  have "nearest_double (real 2 * (1 / 2)) = real 2 * (1 / 2)"
    using nearest_small_int [of 1] by simp
  then have "test_rows 2 (Finite (1 / 2)) = Inr (max 1 (round_half_even (real 2 * (1 / 2))))"
    by (intro test_rows_exact) simp_all
  also have "real 2 * (1 / 2) = of_int 1" by simp
  finally show ?thesis by (simp only: rhe_of_int) simp
qed

lemma test_rows_1_half: "test_rows 1 (Finite (1 / 2)) = Inr 1"
proof -
  have "nearest_double (real 1 * (1 / 2)) = real 1 * (1 / 2)"
    using double_half(2) by simp
  then have "test_rows 1 (Finite (1 / 2)) = Inr (max 1 (round_half_even (real 1 * (1 / 2))))"
    by (intro test_rows_exact) simp_all
  then show ?thesis by simp
qed

lemma test_rows_2_7_8: "test_rows 2 (Finite (7 / 8)) = Inr 2"
proof -
  have "nearest_double (real 2 * (7 / 8)) = real 2 * (7 / 8)"
    using double_7_4 by simp
  then have "test_rows 2 (Finite (7 / 8)) = Inr (max 1 (round_half_even (real 2 * (7 / 8))))"
    by (intro test_rows_exact) simp_all
  then show ?thesis by simp
qed

subsection \<open>Products that are rounded\<close>

text \<open>
  The fractions 0.3, 0.7, 0.9 and 0.9166666666666666 are not doubles: Python reads each
  as the double nearest to it, and the product with the number of rows is rounded to a
  double again before \<open>round\<close> sees it.  So 5 rows and 0.3 give the product 1.5 and
  two test rows, 45 rows and 0.7 give a product below 31.5 and 31 test rows, 5 rows and
  0.9 give 4.5 and four test rows, and 6 rows and 0.9166666666666666 give 5.5 and six
  test rows, which leaves no row to train on.
\<close>

lemma nearest_binade:
  assumes "2 powi k \<le> x" and "x < 2 powi (k + 1)" and "- 1022 \<le> k"
  shows "nearest_double x = of_int (round_half_even (x / 2 powi (k - 52))) * 2 powi (k - 52)"
  by (simp only: nearest_on_grid expo_eq [OF assms])

lemma test_rows_rounded:
  assumes "n < 2 ^ 53" and "nearest_double (real n * f) = y" and "\<bar>y\<bar> < 2 ^ 1024"
  shows "test_rows n (Finite f) = Inr (max 1 (round_half_even y))"
proof -
  have n0: "0 \<le> int n" and n53: "int n < 2 ^ 53" using assms(1) by simp_all
  then have n63: "int n < 2 ^ 63" by simp
  have F: "nearest_double (of_int (int n)) = real n"
    using nearest_small_int [OF n0 n53] by simp
  have fi: "float_of_int (int n) = Inr (Finite (real n))"
    using float_of_int_nonneg(1) [OF n0 n63] by (simp only: F)
  have mul: "to_double (real n * f) = Finite y"
    using assms(2,3) by (simp add: to_double_def Let_def abs_less_iff)
  show ?thesis by (simp add: test_rows_def fi mul)
qed

lemma double_0_3: "to_double (3 / 10) = Finite (5404319552844595 / 2 ^ 54)"
proof -
  have "nearest_double (3 / 10) =
          of_int (round_half_even ((3 / 10) / 2 powi (- 2 - 52))) * 2 powi (- 2 - 52)"
    by (rule nearest_binade) simp_all
  also have "(3 / 10 :: real) / 2 powi (- 2 - 52) = 27021597764222976 / 5"
    by (simp add: power_int_minus_left)
  also have "round_half_even (27021597764222976 / 5) = 5404319552844595"
    by (simp add: round_half_even_def Let_def)
  finally have "nearest_double (3 / 10) = 5404319552844595 / 2 ^ 54" by simp
  then show ?thesis by (simp add: to_double_def Let_def)
qed

lemma test_rows_5_0_3: "test_rows 5 (Finite (5404319552844595 / 2 ^ 54)) = Inr 2"
proof -
  have "nearest_double (real 5 * (5404319552844595 / 2 ^ 54)) =
          of_int (round_half_even ((real 5 * (5404319552844595 / 2 ^ 54)) / 2 powi (0 - 52))) * 2 powi (0 - 52)"
    by (rule nearest_binade) simp_all
  also have "(real 5 * (5404319552844595 / 2 ^ 54)) / 2 powi (0 - 52) = 27021597764222975 / 4"
    by (simp add: power_int_minus_left)
  also have "round_half_even (27021597764222975 / 4) = 6755399441055744"
    by (simp add: round_half_even_def Let_def)
  finally have "nearest_double (real 5 * (5404319552844595 / 2 ^ 54)) = 3 / 2" by simp
  then have "test_rows 5 (Finite (5404319552844595 / 2 ^ 54)) = Inr (max 1 (round_half_even (3 / 2)))"
    by (rule test_rows_rounded [rotated]) simp_all
  then show ?thesis by (simp add: round_half_even_def Let_def)
qed

lemma double_0_7: "to_double (7 / 10) = Finite (3152519739159347 / 2 ^ 52)"
proof -
  have "nearest_double (7 / 10) =
          of_int (round_half_even ((7 / 10) / 2 powi (- 1 - 52))) * 2 powi (- 1 - 52)"
    by (rule nearest_binade) simp_all
  also have "(7 / 10 :: real) / 2 powi (- 1 - 52) = 31525197391593472 / 5"
    by (simp add: power_int_minus_left)
  also have "round_half_even (31525197391593472 / 5) = 6305039478318694"
    by (simp add: round_half_even_def Let_def)
  finally have "nearest_double (7 / 10) = 3152519739159347 / 2 ^ 52" by simp
  then show ?thesis by (simp add: to_double_def Let_def)
qed

lemma test_rows_45_0_7: "test_rows 45 (Finite (3152519739159347 / 2 ^ 52)) = Inr 31"
proof -
  have "nearest_double (real 45 * (3152519739159347 / 2 ^ 52)) =
          of_int (round_half_even ((real 45 * (3152519739159347 / 2 ^ 52)) / 2 powi (4 - 52))) * 2 powi (4 - 52)"
    by (rule nearest_binade) simp_all
  also have "(real 45 * (3152519739159347 / 2 ^ 52)) / 2 powi (4 - 52) = 141863388262170615 / 16"
    by (simp add: power_int_minus_left)
  also have "round_half_even (141863388262170615 / 16) = 8866461766385663"
    by (simp add: round_half_even_def Let_def)
  finally have "nearest_double (real 45 * (3152519739159347 / 2 ^ 52)) = 8866461766385663 / 281474976710656" by simp
  then have "test_rows 45 (Finite (3152519739159347 / 2 ^ 52)) = Inr (max 1 (round_half_even (8866461766385663 / 281474976710656)))"
    by (rule test_rows_rounded [rotated]) simp_all
  then show ?thesis by (simp add: round_half_even_def Let_def)
qed

lemma double_0_9: "to_double (9 / 10) = Finite (8106479329266893 / 2 ^ 53)"
proof -
  have "nearest_double (9 / 10) =
          of_int (round_half_even ((9 / 10) / 2 powi (- 1 - 52))) * 2 powi (- 1 - 52)"
    by (rule nearest_binade) simp_all
  also have "(9 / 10 :: real) / 2 powi (- 1 - 52) = 40532396646334464 / 5"
    by (simp add: power_int_minus_left)
  also have "round_half_even (40532396646334464 / 5) = 8106479329266893"
    by (simp add: round_half_even_def Let_def)
  finally have "nearest_double (9 / 10) = 8106479329266893 / 2 ^ 53" by simp
  then show ?thesis by (simp add: to_double_def Let_def)
qed

lemma test_rows_5_0_9: "test_rows 5 (Finite (8106479329266893 / 2 ^ 53)) = Inr 4"
proof -
  have "nearest_double (real 5 * (8106479329266893 / 2 ^ 53)) =
          of_int (round_half_even ((real 5 * (8106479329266893 / 2 ^ 53)) / 2 powi (2 - 52))) * 2 powi (2 - 52)"
    by (rule nearest_binade) simp_all
  also have "(real 5 * (8106479329266893 / 2 ^ 53)) / 2 powi (2 - 52) = 40532396646334465 / 8"
    by (simp add: power_int_minus_left)
  also have "round_half_even (40532396646334465 / 8) = 5066549580791808"
    by (simp add: round_half_even_def Let_def)
  finally have "nearest_double (real 5 * (8106479329266893 / 2 ^ 53)) = 9 / 2" by simp
  then have "test_rows 5 (Finite (8106479329266893 / 2 ^ 53)) = Inr (max 1 (round_half_even (9 / 2)))"
    by (rule test_rows_rounded [rotated]) simp_all
  then show ?thesis by (simp add: round_half_even_def Let_def)
qed

lemma double_0_916: "to_double (9166666666666666 / 10000000000000000) = Finite (8256599316845909 / 2 ^ 53)"
proof -
  have "nearest_double (9166666666666666 / 10000000000000000) =
          of_int (round_half_even ((9166666666666666 / 10000000000000000) / 2 powi (- 1 - 52))) * 2 powi (- 1 - 52)"
    by (rule nearest_binade) simp_all
  also have "(9166666666666666 / 10000000000000000 :: real) / 2 powi (- 1 - 52) = 1259857073493333241707364352 / 152587890625"
    by (simp add: power_int_minus_left)
  also have "round_half_even (1259857073493333241707364352 / 152587890625) = 8256599316845909"
    by (simp add: round_half_even_def Let_def)
  finally have "nearest_double (9166666666666666 / 10000000000000000) = 8256599316845909 / 2 ^ 53" by simp
  then show ?thesis by (simp add: to_double_def Let_def)
qed

lemma test_rows_6_0_916: "test_rows 6 (Finite (8256599316845909 / 2 ^ 53)) = Inr 6"
proof -
  have "nearest_double (real 6 * (8256599316845909 / 2 ^ 53)) =
          of_int (round_half_even ((real 6 * (8256599316845909 / 2 ^ 53)) / 2 powi (2 - 52))) * 2 powi (2 - 52)"
    by (rule nearest_binade) simp_all
  also have "(real 6 * (8256599316845909 / 2 ^ 53)) / 2 powi (2 - 52) = 24769797950537727 / 4"
    by (simp add: power_int_minus_left)
  also have "round_half_even (24769797950537727 / 4) = 6192449487634432"
    by (simp add: round_half_even_def Let_def)
  finally have "nearest_double (real 6 * (8256599316845909 / 2 ^ 53)) = 11 / 2" by simp
  then have "test_rows 6 (Finite (8256599316845909 / 2 ^ 53)) = Inr (max 1 (round_half_even (11 / 2)))"
    by (rule test_rows_rounded [rotated]) simp_all
  then show ?thesis by (simp add: round_half_even_def Let_def)
qed

section \<open>Properties of timeSplit\<close>

lemma slice_bound_inner: "1 \<le> t \<Longrightarrow> t \<le> int n \<Longrightarrow> slice_bound n (int n - t) = n - nat t"
  by (auto simp: slice_bound_def)

lemma slice_bound_outer: "n < 2 \<Longrightarrow> 1 \<le> t \<Longrightarrow> slice_bound n (int n - t) = 0"
  by (auto simp: slice_bound_def)

lemma timeSplit_Inr:
  assumes "test_rows (length df) ts = Inr k"
  shows "timeSplit df ts =
           Inr (take (slice_bound (length df) (int (length df) - k)) df,
                drop (slice_bound (length df) (int (length df) - k)) df)"
  using assms by (simp add: timeSplit_def Let_def)

lemma timeSplit_in_range:
  assumes "test_rows (length df) ts = Inr k" and "k \<le> int (length df)"
  shows "timeSplit df ts = Inr (take (length df - nat k) df, drop (length df - nat k) df)"
proof -
  have "1 \<le> k" using assms(1) by (rule test_rows_ge_1)
  then have "slice_bound (length df) (int (length df) - k) = length df - nat k"
    using assms(2) by (rule slice_bound_inner)
  then show ?thesis by (simp add: timeSplit_Inr [OF assms(1)])
qed

lemma timeSplit_all_test:
  assumes "test_rows (length df) ts = Inr k" and "length df < 2 \<or> k = int (length df)"
  shows "timeSplit df ts = Inr ([], df)"
proof -
  have k1: "1 \<le> k" using assms(1) by (rule test_rows_ge_1)
  have "slice_bound (length df) (int (length df) - k) = 0"
  proof (cases "length df < 2")
    case True
    then show ?thesis using k1 by (rule slice_bound_outer)
  next
    case False
    with assms(2) have "k = int (length df)" by simp
    then show ?thesis by (simp add: slice_bound_def)
  qed
  then show ?thesis by (simp add: timeSplit_Inr [OF assms(1)])
qed



subsection \<open>Order of the dates across the split\<close>

lemma ts_less_Some: "ts_less a b \<longleftrightarrow> (\<exists>x y. a = Some x \<and> b = Some y \<and> x < y)"
  by (auto simp: ts_less_def split: option.splits)

lemma dates_all_defined:
  "\<forall>r\<in>set df. date r \<noteq> None \<Longrightarrow> dates df = map (\<lambda>r. the (date r)) df"
  by (induction df) (auto simp: dates_def)

lemma strict_dates_defined:
  assumes "sorted_wrt (\<lambda>a b. ts_less (date a) (date b)) df" "2 \<le> length df" "r \<in> set df"
  shows "date r \<noteq> None"
proof -
  from assms(3) obtain i where i: "i < length df" "df ! i = r"
    by (auto simp: in_set_conv_nth)
  define j where "j = (if i = 0 then 1 else 0::nat)"
  have j: "j < length df" "j \<noteq> i"
    using assms(2) by (auto simp: j_def)
  then consider "i < j" | "j < i" by linarith
  then show ?thesis
  proof cases
    case 1
    with assms(1) j(1) have "ts_less (date (df ! i)) (date (df ! j))"
      by (simp add: sorted_wrt_iff_nth_less)
    with i(2) show ?thesis by (auto simp: ts_less_Some)
  next
    case 2
    with assms(1) i(1) have "ts_less (date (df ! j)) (date (df ! i))"
      by (simp add: sorted_wrt_iff_nth_less)
    with i(2) show ?thesis by (auto simp: ts_less_Some)
  qed
qed

lemma split_dates_ordered:
  assumes sw: "sorted_wrt (\<lambda>a b. ts_less (date a) (date b)) (xs @ ys)"
    and def: "\<forall>r\<in>set (xs @ ys). date r \<noteq> None"
    and ne: "xs \<noteq> []" "ys \<noteq> []"
  shows "ts_less (date_max xs) (date_min ys)"
proof -
  have dx: "dates xs = map (\<lambda>r. the (date r)) xs" and dy: "dates ys = map (\<lambda>r. the (date r)) ys"
    using def by (auto intro: dates_all_defined)
  have "\<forall>x\<in>set xs. \<forall>y\<in>set ys. ts_less (date x) (date y)"
    using sw by (simp add: sorted_wrt_append)
  then have cross: "\<forall>x\<in>set xs. \<forall>y\<in>set ys. the (date x) < the (date y)"
    by (fastforce simp: ts_less_Some)
  have "Max (set (dates xs)) < Min (set (dates ys))"
    using ne cross by (simp add: dx dy)
  with ne show ?thesis
    by (simp add: date_max_def date_min_def ts_less_def dx dy)
qed

text \<open>
  C6, as stated: for a table sorted ascending by date with at least two rows and a test
  fraction in (0,1), the latest train date is strictly earlier than the earliest test
  date.  It fails in two ways.  Two rows of the same date are in ascending order, and the
  split puts one on each side.  And with two rows and a fraction of 0.875 the test part
  takes both rows: the train part is empty and has no latest date.
\<close>

theorem timeSplit_dates_counterexample:
  "sorted (map (\<lambda>r. date_key (date r)) tied_rows) \<and> 2 \<le> length tied_rows \<and>
   is_double (Finite (1 / 2)) \<and> \<not> split_ordered (timeSplit tied_rows (Finite (1 / 2))) \<and>
   sorted (map (\<lambda>r. date_key (date r)) two_rows) \<and> 2 \<le> length two_rows \<and>
   is_double (Finite (7 / 8)) \<and> \<not> split_ordered (timeSplit two_rows (Finite (7 / 8)))"
proof -
  have la: "length tied_rows = 2" by (simp add: tied_rows_def)
  have lb: "length two_rows = 2" by (simp add: two_rows_def)
  have a: "test_rows (length tied_rows) (Finite (1 / 2)) = Inr 1"
    by (simp only: la test_rows_2_half)
  have b: "test_rows (length two_rows) (Finite (7 / 8)) = Inr 2"
    by (simp only: lb test_rows_2_7_8)
  have "\<not> split_ordered (timeSplit tied_rows (Finite (1 / 2)))"
    by (simp add: timeSplit_Inr [OF a] split_ordered_def)
       (simp add: tied_rows_def slice_bound_def date_max_def date_min_def dates_def ts_less_def)
  moreover have "\<not> split_ordered (timeSplit two_rows (Finite (7 / 8)))"
    by (simp add: timeSplit_Inr [OF b] split_ordered_def)
       (simp add: two_rows_def slice_bound_def date_max_def date_min_def dates_def ts_less_def)
  ultimately show ?thesis
    using double_half(1) double_7_8(1) by (simp add: tied_rows_def two_rows_def date_key_def)
qed

text \<open>
  C6, amended: when no two rows share a date (the dates increase strictly) and the test
  row count that line 30 computes is below \<open>n\<close>, so that the train part is not empty,
  the latest train date is strictly earlier than the earliest test date.
\<close>

theorem timeSplit_dates_strict:
  assumes "sorted_wrt (\<lambda>a b. ts_less (date a) (date b)) df"
    and "2 \<le> length df"
    and "test_rows (length df) test_size = Inr k" and "k < int (length df)"
  shows "split_ordered (timeSplit df test_size)"
proof -
  let ?tr = "take (length df - nat k) df" and ?te = "drop (length df - nat k) df"
  have k1: "1 \<le> k" using assms(3) by (rule test_rows_ge_1)
  have eq: "timeSplit df test_size = Inr (?tr, ?te)"
    using assms(3,4) by (intro timeSplit_in_range) simp_all
  have lt: "nat k < length df" "0 < nat k" using k1 assms(4) by linarith+
  have "length df - nat k \<le> length df" by (rule diff_le_self)
  then have ltr: "length ?tr = length df - nat k" by (simp only: length_take min_absorb2)
  have "nat k \<le> length df" using lt(1) by (rule less_imp_le)
  then have lte: "length ?te = nat k" by (simp only: length_drop diff_diff_cancel)
  have "0 < length ?tr" "0 < length ?te" unfolding ltr lte using lt by linarith+
  then have ne: "?tr \<noteq> []" "?te \<noteq> []" by (simp_all only: length_greater_0_conv simp_thms)
  have def: "\<forall>r\<in>set df. date r \<noteq> None"
    using strict_dates_defined [OF assms(1,2)] by blast
  have "ts_less (date_max ?tr) (date_min ?te)"
  proof (rule split_dates_ordered)
    show "sorted_wrt (\<lambda>a b. ts_less (date a) (date b)) (?tr @ ?te)"
      using assms(1) by (simp only: append_take_drop_id)
    show "\<forall>r\<in>set (?tr @ ?te). date r \<noteq> None"
      using def by (simp only: append_take_drop_id)
  qed (rule ne)+
  then show ?thesis by (simp add: eq split_ordered_def)
qed

theorem timeSplit_dates_strict_witness:
  "split_ordered (timeSplit two_rows (Finite (1 / 2)))"
proof -
  have l: "length two_rows = 2" by (simp add: two_rows_def)
  have "test_rows (length two_rows) (Finite (1 / 2)) = Inr 1"
    by (simp only: l test_rows_2_half)
  then show ?thesis
    by (rule timeSplit_dates_strict [rotated 2]) (simp_all add: two_rows_def ts_less_def)
qed

subsection \<open>Degenerate splits\<close>

text \<open>
  C8, as stated: split fails when the test rows would leave the train part empty or when
  the table has fewer than two rows.  \<open>timeSplit\<close> returns in both cases: the train
  part is empty and the test part is the whole table.
\<close>

theorem timeSplit_degenerate_counterexample:
  "timeSplit [Suc 0] (Finite (1 / 2)) = Inr ([], [Suc 0]) \<and>
   timeSplit two_rows (Finite (7 / 8)) = Inr ([], two_rows)"
proof
  have l1: "length [Suc 0] = 1" by simp
  have "test_rows (length [Suc 0]) (Finite (1 / 2)) = Inr 1"
    by (simp only: l1 test_rows_1_half)
  then show "timeSplit [Suc 0] (Finite (1 / 2)) = Inr ([], [Suc 0])"
    by (rule timeSplit_all_test) simp
  have l2: "length two_rows = 2" by (simp add: two_rows_def)
  have "test_rows (length two_rows) (Finite (7 / 8)) = Inr 2"
    by (simp only: l2 test_rows_2_7_8)
  then show "timeSplit two_rows (Finite (7 / 8)) = Inr ([], two_rows)"
    by (rule timeSplit_all_test) (simp add: l2)
qed

text \<open>
  C8, amended: for a test fraction in (0,1), \<open>timeSplit\<close> does not fail on a table of
  fewer than two rows, nor on one whose test row count reaches \<open>n\<close>: it returns the empty
  train part and the whole table as the test part.
\<close>

theorem timeSplit_degenerate:
  assumes "is_double (Finite f)" and "0 < f" and "f < 1" and "length df < 2 ^ 63"
    and "length df < 2 \<or> (\<exists>k. test_rows (length df) (Finite f) = Inr k \<and> int (length df) \<le> k)"
  shows "timeSplit df (Finite f) = Inr ([], df)"
proof (cases "length df = 0")
  case True
  have "test_rows 0 (Finite f) = Inr (max 1 (round_half_even (real 0 * f)))"
    by (rule test_rows_exact) simp_all
  then have "test_rows (length df) (Finite f) = Inr 1" by (simp add: True)
  then show ?thesis by (rule timeSplit_all_test) (simp add: True)
next
  case False
  then have "1 \<le> length df" by linarith
  then obtain k where k: "test_rows (length df) (Finite f) = Inr k" "1 \<le> k" "k \<le> int (length df)"
    using assms(4,1,2,3) by (rule test_rows_bounds)
  have "length df < 2 \<or> k = int (length df)"
    using assms(5) k by auto
  with k(1) show ?thesis by (rule timeSplit_all_test)
qed

theorem timeSplit_degenerate_witness:
  "timeSplit [1, 2 :: nat] (Finite (7 / 8)) = Inr ([], [1, 2]) \<and>
   timeSplit [1 :: nat] (Finite (1 / 2)) = Inr ([], [1])"
proof
  have l: "length [1, 2 :: nat] = 2" by simp
  have "test_rows (length [1, 2 :: nat]) (Finite (7 / 8)) = Inr 2"
    by (simp only: l test_rows_2_7_8)
  then have "length [1, 2 :: nat] < 2 \<or>
      (\<exists>k. test_rows (length [1, 2 :: nat]) (Finite (7 / 8)) = Inr k \<and> int (length [1, 2 :: nat]) \<le> k)"
    by simp
  then show "timeSplit [1, 2 :: nat] (Finite (7 / 8)) = Inr ([], [1, 2])"
    by (rule timeSplit_degenerate [OF double_7_8(1), rotated 3]) simp_all
  show "timeSplit [1 :: nat] (Finite (1 / 2)) = Inr ([], [1])"
    by (rule timeSplit_degenerate [OF double_half(1)]) simp_all
qed

text \<open>
  The errors of \<open>timeSplit\<close> are those of \<open>round\<close>: a test fraction that is not a
  number, and one that is infinite.
\<close>

lemma timeSplit_NaN:
  assumes "length df < 2 ^ 63"
  shows "timeSplit df NaN = Inl ValueError"
proof -
  have "0 \<le> int (length df)" "int (length df) < 2 ^ 63" using assms by simp_all
  then have "float_of_int (int (length df)) = Inr (Finite (nearest_double (of_int (int (length df)))))"
    by (rule float_of_int_nonneg(1))
  then show ?thesis by (simp add: timeSplit_def test_rows_def)
qed

lemma timeSplit_infinite:
  assumes "0 < length df" and "length df < 2 ^ 63"
  shows "timeSplit df PosInf = Inl OverflowError" and "timeSplit df NegInf = Inl OverflowError"
proof -
  have n: "1 \<le> int (length df)" "0 \<le> int (length df)" "int (length df) < 2 ^ 63"
    using assms by (linarith, linarith, simp)
  have f: "float_of_int (int (length df)) = Inr (Finite (nearest_double (of_int (int (length df)))))"
    using n(2,3) by (rule float_of_int_nonneg(1))
  let ?x = "of_int (int (length df)) :: real"
  let ?k = "\<lfloor>log 2 ?x\<rfloor>"
  have x1: "1 \<le> ?x" using n(1) by simp
  then have "2 powi 0 \<le> ?x" by simp
  then have k0: "0 \<le> ?k" by (rule floor_log2_ge)
  have "expo ?x = max (- 1074) (?k - 52)" using x1 by (simp add: expo_def)
  then have e: "expo ?x \<le> ?k" using k0 by simp
  have "of_int ?k \<le> log 2 ?x" by (rule of_int_floor_le)
  then have "2 powr of_int ?k \<le> 2 powr log 2 ?x" by simp
  moreover have "0 < ?x" using x1 by linarith
  then have "2 powr log 2 ?x = ?x" by (intro powr_log_cancel) simp_all
  ultimately have "2 powi ?k \<le> ?x" by (simp only: pow2_powr)
  then have "of_int 1 * 2 powi ?k \<le> ?x" by simp
  then have "of_int 1 * 2 powi ?k \<le> nearest_double ?x" using e by (rule nearest_ge_grid)
  moreover have "(0::real) < of_int 1 * 2 powi ?k" by simp
  ultimately have "0 < nearest_double ?x" by linarith
  then have p: "0 < nearest_double (of_int (int (length df)))" .
  show "timeSplit df PosInf = Inl OverflowError" "timeSplit df NegInf = Inl OverflowError"
    using p by (simp_all add: timeSplit_def test_rows_def f)
qed

section \<open>Properties of the metrics\<close>

lemma map2_fst_snd: "map2 g (map fst ps) (map snd ps) = map (\<lambda>(t, p). g t p) ps"
  by (induction ps) auto

lemma sum_list_zero: "\<forall>x\<in>set xs. x = (0::real) \<Longrightarrow> sum_list xs = 0"
  by (induction xs) auto

text \<open>
  C9.  On a non-empty sequence of pairs \<open>(y_true, y_pred)\<close> the evaluation returns the
  mean absolute difference and the square root of the mean squared difference; when every
  prediction equals its true value, both are 0.
\<close>

theorem evaluate_metrics:
  assumes "ps \<noteq> []"
  shows "evaluate (map fst ps) (map snd ps) =
           Inr (sum_list (map (\<lambda>(t, p). \<bar>t - p\<bar>) ps) / real (length ps),
                sqrt (sum_list (map (\<lambda>(t, p). (t - p)\<^sup>2) ps) / real (length ps))) \<and>
         ((\<forall>(t, p)\<in>set ps. p = t) \<longrightarrow> evaluate (map fst ps) (map snd ps) = Inr (0, 0))"
proof -
  have mae: "mean_absolute_error (map fst ps) (map snd ps) =
               Inr (sum_list (map (\<lambda>(t, p). \<bar>t - p\<bar>) ps) / real (length ps))"
    using assms by (simp add: mean_absolute_error_def map2_fst_snd abs_minus_commute)
  have mse: "mean_squared_error (map fst ps) (map snd ps) =
               Inr (sum_list (map (\<lambda>(t, p). (t - p)\<^sup>2) ps) / real (length ps))"
    using assms by (simp add: mean_squared_error_def map2_fst_snd)
  have ev: "evaluate (map fst ps) (map snd ps) =
           Inr (sum_list (map (\<lambda>(t, p). \<bar>t - p\<bar>) ps) / real (length ps),
                sqrt (sum_list (map (\<lambda>(t, p). (t - p)\<^sup>2) ps) / real (length ps)))"
    by (simp add: evaluate_def mae mse)
  have "sum_list (map (\<lambda>(t, p). \<bar>t - p\<bar>) ps) = 0 \<and> sum_list (map (\<lambda>(t, p). (t - p)\<^sup>2) ps) = 0"
    if "\<forall>(t, p)\<in>set ps. p = t"
    using that by (fastforce intro!: sum_list_zero)
  then show ?thesis
    by (simp add: ev)
qed

theorem evaluate_metrics_witness:
  "evaluate [1, 2] [1, 2] = Inr (0, 0) \<and> evaluate [1, 2] [4, 6] = Inr (7 / 2, sqrt (25 / 2))"
  using evaluate_metrics [of "[(1, 1), (2, 2)]"] evaluate_metrics [of "[(1, 4), (2, 6)]"]
  by simp


section \<open>Properties of the series operations\<close>

lemma length_diff [simp]: "length (diff xs) = length xs"
  by (simp add: diff_def)

lemma nth_diff:
  "t < length xs \<Longrightarrow> diff xs ! t = (if t = 0 then None else fsub (xs ! t) (xs ! (t - 1)))"
  by (simp add: diff_def)

lemma length_shifted [simp]: "length (shifted k xs) = length xs"
  by (simp add: shifted_def)

lemma nth_shifted:
  "t < length xs \<Longrightarrow>
   shifted k xs ! t =
     (if 0 \<le> int t - k \<and> int t - k < int (length xs) then xs ! nat (int t - k) else None)"
  by (simp add: shifted_def Let_def)

lemma length_rolled_mean [simp]: "length (rolled_mean w xs) = length xs"
  by (simp add: rolled_mean_def)

lemma length_rolled_std [simp]: "length (rolled_std w xs) = length xs"
  by (simp add: rolled_std_def)

lemma drop_take_nth: "b \<le> length xs \<Longrightarrow> drop a (take b xs) = map ((!) xs) [a..<b]"
  by (rule nth_equalityI) auto

lemma filter_pos_upt: "filter (\<lambda>i. 0 < i) [a..<b] = [max 1 a..<b]"
proof (cases a)
  case 0
  show ?thesis
  proof (cases "0 < b")
    case True
    have "filter (\<lambda>i. 0 < i) [Suc 0..<b] = [Suc 0..<b]"
      by (rule filter_True) auto
    with True 0 show ?thesis by (simp add: upt_rec [of 0 b])
  next
    case False
    with 0 show ?thesis by simp
  qed
next
  case (Suc m)
  have "filter (\<lambda>i. 0 < i) [Suc m..<b] = [Suc m..<b]"
    by (rule filter_True) auto
  with Suc show ?thesis by (simp add: max_def)
qed

lemma observed_eq:
  assumes gap: "\<forall>i<length xs. (xs ! i \<noteq> None) = (0 < i)" and t: "t < length xs"
  shows "observed w xs t = map (\<lambda>i. the (xs ! i)) [max 1 (Suc t - w)..<Suc t]"
proof -
  have "filter (\<lambda>c. c \<noteq> None) (map ((!) xs) [Suc t - w..<Suc t]) =
        map ((!) xs) (filter (\<lambda>i. xs ! i \<noteq> None) [Suc t - w..<Suc t])"
    by (simp add: filter_map comp_def)
  also have "filter (\<lambda>i. xs ! i \<noteq> None) [Suc t - w..<Suc t] = filter (\<lambda>i. 0 < i) [Suc t - w..<Suc t]"
  proof (rule filter_cong [OF refl])
    fix i assume "i \<in> set [Suc t - w..<Suc t]"
    then have "i < Suc t" by (simp only: set_upt atLeastLessThan_iff)
    with t have "i < length xs" by linarith
    with gap show "(xs ! i \<noteq> None) = (0 < i)" by blast
  qed
  also have "\<dots> = [max 1 (Suc t - w)..<Suc t]"
    by (rule filter_pos_upt)
  finally show ?thesis
    using t by (simp add: observed_def drop_take_nth comp_def)
qed

lemma length_observed:
  assumes "\<forall>i<length xs. (xs ! i \<noteq> None) = (0 < i)" and "t < length xs"
  shows "length (observed w xs t) = min w t"
proof -
  have "length (observed w xs t) = Suc t - max 1 (Suc t - w)"
    by (simp only: observed_eq [OF assms] length_map length_upt)
  also have "\<dots> = min w t" by linarith
  finally show ?thesis .
qed

lemma observed_full:
  assumes "\<forall>i<length xs. (xs ! i \<noteq> None) = (0 < i)" and "t < length xs" and "1 \<le> w" and "w \<le> t"
  shows "observed w xs t = map (\<lambda>i. the (xs ! i)) [Suc t - w..<Suc t]"
proof -
  have "max 1 (Suc t - w) = Suc t - w" using assms(3,4) by linarith
  with observed_eq [OF assms(1,2), of w] show ?thesis by simp
qed

lemma nth_rolled_mean_raw:
  "t < length xs \<Longrightarrow>
   rolled_mean w xs ! t =
     (if w \<le> length (observed w xs t) \<and> 0 < length (observed w xs t)
      then Some (sum_list (observed w xs t) / real (length (observed w xs t))) else None)"
  by (simp add: rolled_mean_def Let_def)

lemma nth_rolled_std_raw:
  "t < length xs \<Longrightarrow>
   rolled_std w xs ! t =
     (if w \<le> length (observed w xs t) \<and> 1 < length (observed w xs t)
      then Some (sqrt (sum_list (map (\<lambda>x. (x - sum_list (observed w xs t) / real (length (observed w xs t)))\<^sup>2)
                                   (observed w xs t)) / real (length (observed w xs t) - 1)))
      else None)"
  by (simp add: rolled_std_def Let_def)

lemma nth_rolled_mean:
  assumes "\<forall>i<length xs. (xs ! i \<noteq> None) = (0 < i)" and "t < length xs"
  shows "rolled_mean w xs ! t =
           (if 1 \<le> w \<and> w \<le> t
            then Some (sum_list (map (\<lambda>i. the (xs ! i)) [Suc t - w..<Suc t]) / real w)
            else None)"
proof (cases "1 \<le> w \<and> w \<le> t")
  case True
  then have len: "length (observed w xs t) = w"
    using length_observed [OF assms, of w] by linarith
  have "rolled_mean w xs ! t = Some (sum_list (observed w xs t) / real w)"
    using True by (simp add: nth_rolled_mean_raw [OF assms(2)] len)
  with True observed_full [OF assms, of w] show ?thesis by simp
next
  case False
  then have "\<not> (w \<le> min w t \<and> 0 < min w t)" by linarith
  with False show ?thesis
    by (simp only: nth_rolled_mean_raw [OF assms(2)] length_observed [OF assms] if_False)
qed

lemma nth_rolled_std:
  assumes "\<forall>i<length xs. (xs ! i \<noteq> None) = (0 < i)" and "t < length xs"
  shows "rolled_std w xs ! t =
           (if 2 \<le> w \<and> w \<le> t
            then Some (sqrt (sum_list (map (\<lambda>x. (x - sum_list (map (\<lambda>i. the (xs ! i)) [Suc t - w..<Suc t]) / real w)\<^sup>2)
                                        (map (\<lambda>i. the (xs ! i)) [Suc t - w..<Suc t])) / real (w - 1)))
            else None)"
proof (cases "2 \<le> w \<and> w \<le> t")
  case True
  then have len: "length (observed w xs t) = w"
    using length_observed [OF assms, of w] by linarith
  have w1: "1 \<le> w" using True by linarith
  have "rolled_std w xs ! t =
          Some (sqrt (sum_list (map (\<lambda>x. (x - sum_list (observed w xs t) / real w)\<^sup>2) (observed w xs t)) / real (w - 1)))"
    using True by (simp add: nth_rolled_std_raw [OF assms(2)] len)
  with True observed_full [OF assms w1] show ?thesis by simp
next
  case False
  then have "\<not> (w \<le> min w t \<and> 1 < min w t)" by linarith
  with False show ?thesis
    by (simp only: nth_rolled_std_raw [OF assms(2)] length_observed [OF assms] if_False)
qed


section \<open>Properties of buildFeatureMatrix\<close>

subsection \<open>The frame before dropna\<close>

lemma clean_positive: "r \<in> set (clean arg df) \<Longrightarrow> \<exists>v. val r = Some v \<and> 0 < v"
  by (auto simp: clean_def split: option.splits)

lemma clean_val_defined: "\<forall>r\<in>set (clean arg df). val r \<noteq> None"
  using clean_positive by fastforce

lemma length_log_price_col [simp]: "length (log_price_col s) = length s"
  by (simp add: log_price_col_def)

lemma length_log_return_col [simp]: "length (log_return_col s) = length s"
  by (simp add: log_return_col_def)

lemma nth_log_return_col:
  assumes "t < length s"
  shows "log_return_col s ! t =
           (if t = 0 then None
            else fsub (map_option ln (val (s ! t))) (map_option ln (val (s ! (t - 1)))))"
  using assms by (simp add: log_return_col_def nth_diff log_price_col_def)

lemma log_return_value:
  assumes "0 < t" "t < length s" "val (s ! (t - 1)) = Some v0" "val (s ! t) = Some v1"
  shows "log_return_col s ! t = Some (ln v1 - ln v0)"
  using assms by (simp add: nth_log_return_col fsub_def)

lemma log_return_gap:
  assumes "\<forall>r\<in>set s. val r \<noteq> None"
  shows "\<forall>i<length s. (log_return_col s ! i \<noteq> None) = (0 < i)"
proof (intro allI impI)
  fix i assume i: "i < length s"
  show "(log_return_col s ! i \<noteq> None) = (0 < i)"
  proof (cases "i = 0")
    case True
    with i show ?thesis by (simp add: nth_log_return_col)
  next
    case False
    with i have "s ! i \<in> set s" "s ! (i - 1) \<in> set s" by simp_all
    with assms obtain a b where "val (s ! (i - 1)) = Some a" "val (s ! i) = Some b"
      by fastforce
    with False i have "log_return_col s ! i = Some (ln b - ln a)"
      by (intro log_return_value) simp_all
    with False show ?thesis by simp
  qed
qed

lemma shifted_zero: "shifted 0 xs = xs"
  by (rule nth_equalityI) (simp_all add: nth_shifted)

lemma shifted_Nil: "shifted k [] = []"
  by (simp add: shifted_def)

lemma shift_Inr: "shift k xs = Inr c \<Longrightarrow> c = shifted k xs"
  by (auto simp: shift_def shifted_zero shifted_Nil split: if_splits)

lemma shift_isl: "isl (shift k xs) \<longleftrightarrow> xs \<noteq> [] \<and> \<not> in_int64 k"
  by (auto simp: shift_def in_int64_def)

lemma shift_back: "shift (- 1) xs = Inr (shifted (- 1) xs)"
  by (simp add: shift_def in_int64_def shifted_Nil)

lemma lag_cols_Inr: "lag_cols lags lr = Inr cs \<Longrightarrow> cs = map (\<lambda>k. shifted k lr) lags"
  by (induction lags arbitrary: cs) (auto split: sum.splits dest: shift_Inr)

lemma lag_cols_isl: "isl (lag_cols lags lr) \<longleftrightarrow> lr \<noteq> [] \<and> (\<exists>k\<in>set lags. \<not> in_int64 k)"
proof (induction lags)
  case Nil
  show ?case by simp
next
  case (Cons k ks)
  show ?case
  proof (cases "shift k lr")
    case (Inl e)
    with shift_isl [of k lr] have "lr \<noteq> [] \<and> \<not> in_int64 k" by simp
    with Inl show ?thesis by simp
  next
    case (Inr c)
    with shift_isl [of k lr] have "\<not> (lr \<noteq> [] \<and> \<not> in_int64 k)" by simp
    with Inr Cons.IH show ?thesis by (cases "lag_cols ks lr") auto
  qed
qed

lemma rolled_mean_Nil: "rolled_mean w [] = []"
  by (simp add: rolled_mean_def)

lemma rolled_std_Nil: "rolled_std w [] = []"
  by (simp add: rolled_std_def)

lemma rolling_mean_Inr: "rolling_mean w xs = Inr c \<Longrightarrow> c = rolled_mean w xs"
  by (auto simp: rolling_mean_def rolled_mean_Nil split: if_splits)

lemma rolling_std_Inr: "rolling_std w xs = Inr c \<Longrightarrow> c = rolled_std w xs"
  by (auto simp: rolling_std_def rolled_std_Nil split: if_splits)

lemma roll_cols_Inr:
  "roll_cols ws lr = Inr rolls \<Longrightarrow>
   rolls = map (\<lambda>w. (rolled_mean (nat w) lr, rolled_std (nat w) lr)) ws \<and> (\<forall>w\<in>set ws. 0 \<le> w)"
  by (induction ws arbitrary: rolls)
     (auto simp: rolling_def split: sum.splits if_splits dest: rolling_mean_Inr rolling_std_Inr)

lemma roll_cols_ok:
  "\<forall>w\<in>set ws. 0 \<le> w \<and> w < 2 ^ 63 \<Longrightarrow> \<exists>rolls. roll_cols ws lr = Inr rolls"
  by (induction ws)
     (auto simp: rolling_def rolling_mean_def rolling_std_def in_int64_def split: sum.splits)

lemma roll_cols_negative: "\<exists>w\<in>set ws. w < 0 \<Longrightarrow> isl (roll_cols ws lr)"
  using roll_cols_Inr [of ws lr] by (cases "roll_cols ws lr") fastforce+

lemma feature_table_rows:
  assumes "feature_table arg df lags windows = Inr pre"
  shows "pre =
           map (\<lambda>t. \<lparr>idx = idx (clean arg df ! t), date = date (clean arg df ! t),
                      val = val (clean arg df ! t),
                      log_price = log_price_col (clean arg df) ! t,
                      log_return = log_return_col (clean arg df) ! t,
                      r_lag = map (\<lambda>k. shifted k (log_return_col (clean arg df)) ! t) lags,
                      r_roll_mean = map (\<lambda>w. rolled_mean (nat w) (log_return_col (clean arg df)) ! t) windows,
                      r_roll_std = map (\<lambda>w. rolled_std (nat w) (log_return_col (clean arg df)) ! t) windows,
                      y_next_return = shifted (- 1) (log_return_col (clean arg df)) ! t\<rparr>)
               [0..<length (clean arg df)]"
    and "\<forall>w\<in>set windows. 0 \<le> w"
proof -
  let ?lr = "log_return_col (clean arg df)"
  from assms obtain lagged rolls where l: "lag_cols lags ?lr = Inr lagged"
    and r: "roll_cols windows ?lr = Inr rolls"
    and p: "pre = map (\<lambda>t. \<lparr>idx = idx (clean arg df ! t), date = date (clean arg df ! t),
                      val = val (clean arg df ! t),
                      log_price = log_price_col (clean arg df) ! t,
                      log_return = ?lr ! t,
                      r_lag = map (\<lambda>c. c ! t) lagged,
                      r_roll_mean = map (\<lambda>c. fst c ! t) rolls,
                      r_roll_std = map (\<lambda>c. snd c ! t) rolls,
                      y_next_return = shifted (- 1) ?lr ! t\<rparr>)
               [0..<length (clean arg df)]"
    by (auto simp: feature_table_def Let_def shift_back split: sum.splits)
  from l have l': "lagged = map (\<lambda>k. shifted k ?lr) lags" by (rule lag_cols_Inr)
  from r have r': "rolls = map (\<lambda>w. (rolled_mean (nat w) ?lr, rolled_std (nat w) ?lr)) windows"
    and w: "\<forall>w\<in>set windows. 0 \<le> w"
    using roll_cols_Inr by blast+
  show "\<forall>w\<in>set windows. 0 \<le> w" by (rule w)
  show "pre =
           map (\<lambda>t. \<lparr>idx = idx (clean arg df ! t), date = date (clean arg df ! t),
                      val = val (clean arg df ! t),
                      log_price = log_price_col (clean arg df) ! t,
                      log_return = log_return_col (clean arg df) ! t,
                      r_lag = map (\<lambda>k. shifted k (log_return_col (clean arg df)) ! t) lags,
                      r_roll_mean = map (\<lambda>w. rolled_mean (nat w) (log_return_col (clean arg df)) ! t) windows,
                      r_roll_std = map (\<lambda>w. rolled_std (nat w) (log_return_col (clean arg df)) ! t) windows,
                      y_next_return = shifted (- 1) (log_return_col (clean arg df)) ! t\<rparr>)
               [0..<length (clean arg df)]"
    by (simp add: p l' r' comp_def)
qed

lemma feature_table_ok:
  assumes "\<forall>k\<in>set lags. in_int64 k" and "\<forall>w\<in>set windows. 0 \<le> w \<and> w < 2 ^ 63"
  obtains pre where "feature_table arg df lags windows = Inr pre"
proof -
  let ?lr = "log_return_col (clean arg df)"
  have "\<not> isl (lag_cols lags ?lr)" using assms(1) by (simp add: lag_cols_isl)
  then obtain lagged where l: "lag_cols lags ?lr = Inr lagged" by (cases "lag_cols lags ?lr") auto
  from assms(2) obtain rolls where r: "roll_cols windows ?lr = Inr rolls"
    using roll_cols_ok by blast
  show ?thesis
    by (rule that) (simp add: feature_table_def Let_def l r shift_back)
qed

lemma feature_table_windows:
  assumes "feature_table arg df lags windows = Inr pre"
  shows "\<forall>w\<in>set windows. 0 \<le> w"
  using assms by (rule feature_table_rows(2))

lemma feature_table_negative_window:
  assumes "\<exists>w\<in>set windows. w < 0"
  shows "isl (feature_table arg df lags windows)"
proof (cases "feature_table arg df lags windows")
  case (Inl e)
  then show ?thesis by simp
next
  case (Inr pre)
  then have "\<forall>w\<in>set windows. 0 \<le> w" by (rule feature_table_windows)
  with assms show ?thesis by fastforce
qed

lemma feature_table_fields:
  assumes "feature_table arg df lags windows = Inr pre" and "t < length (clean arg df)"
  shows "length pre = length (clean arg df)"
    and "idx (pre ! t) = idx (clean arg df ! t)"
    and "date (pre ! t) = date (clean arg df ! t)"
    and "val (pre ! t) = val (clean arg df ! t)"
    and "log_price (pre ! t) = log_price_col (clean arg df) ! t"
    and "log_return (pre ! t) = log_return_col (clean arg df) ! t"
    and "r_lag (pre ! t) = map (\<lambda>k. shifted k (log_return_col (clean arg df)) ! t) lags"
    and "r_roll_mean (pre ! t) = map (\<lambda>w. rolled_mean (nat w) (log_return_col (clean arg df)) ! t) windows"
    and "r_roll_std (pre ! t) = map (\<lambda>w. rolled_std (nat w) (log_return_col (clean arg df)) ! t) windows"
    and "y_next_return (pre ! t) = shifted (- 1) (log_return_col (clean arg df)) ! t"
  using assms(2) by (simp_all add: feature_table_rows(1) [OF assms(1)])

lemma feature_table_length:
  assumes "feature_table arg df lags windows = Inr pre"
  shows "length pre = length (clean arg df)"
  by (simp add: feature_table_rows(1) [OF assms])

subsection \<open>Which cells are present\<close>

lemma shift_defined:
  assumes "\<forall>i<length xs. (xs ! i \<noteq> None) = (0 < i)" and "t < length xs"
  shows "(shifted k xs ! t \<noteq> None) = (1 \<le> int t - k \<and> int t - k < int (length xs))"
proof (cases "0 \<le> int t - k \<and> int t - k < int (length xs)")
  case True
  then have "nat (int t - k) < length xs" by linarith
  with assms(1) have "(xs ! nat (int t - k) \<noteq> None) = (0 < nat (int t - k))" by blast
  moreover have "shifted k xs ! t = xs ! nat (int t - k)"
    using True assms(2) by (simp add: nth_shifted)
  moreover have "(0 < nat (int t - k)) = (1 \<le> int t - k)" by linarith
  ultimately show ?thesis using True by simp
next
  case False
  then have "shifted k xs ! t = None" using assms(2) by (simp only: nth_shifted if_False)
  moreover have "\<not> (1 \<le> int t - k \<and> int t - k < int (length xs))" using False by linarith
  ultimately show ?thesis by simp
qed

lemma shift_back_nth:
  assumes "t < length xs"
  shows "shifted (- 1) xs ! t = (if Suc t < length xs then xs ! Suc t else None)"
proof -
  have "nat (int t + 1) = Suc t" by linarith
  moreover have "(int t + 1 < int (length xs)) = (Suc t < length xs)" by linarith
  ultimately show ?thesis using assms by (simp add: nth_shifted)
qed

lemma target_defined:
  assumes "\<forall>i<length xs. (xs ! i \<noteq> None) = (0 < i)" and "t < length xs"
  shows "(shifted (- 1) xs ! t \<noteq> None) = (Suc t < length xs)"
  using assms by (simp add: shift_back_nth)

lemma rolling_mean_defined:
  assumes "\<forall>i<length xs. (xs ! i \<noteq> None) = (0 < i)" and "t < length xs"
  shows "(rolled_mean w xs ! t \<noteq> None) = (1 \<le> w \<and> w \<le> t)"
  by (simp add: nth_rolled_mean [OF assms])

lemma rolling_std_defined:
  assumes "\<forall>i<length xs. (xs ! i \<noteq> None) = (0 < i)" and "t < length xs"
  shows "(rolled_std w xs ! t \<noteq> None) = (2 \<le> w \<and> w \<le> t)"
  by (simp add: nth_rolled_std [OF assms])

lemma clean_gap: "\<forall>i<length (clean arg df). (log_return_col (clean arg df) ! i \<noteq> None) = (0 < i)"
  using log_return_gap [OF clean_val_defined] by simp

lemma feats_defined_iff:
  assumes pre: "feature_table arg df lags windows = Inr pre" and t: "t < length (clean arg df)"
  shows "feats_defined (pre ! t) \<longleftrightarrow>
           0 < t \<and> (\<forall>k\<in>set lags. 1 \<le> int t - k \<and> int t - k < int (length (clean arg df))) \<and>
           (\<forall>w\<in>set windows. 2 \<le> w \<and> w \<le> int t) \<and> Suc t < length (clean arg df)"
proof -
  let ?lr = "log_return_col (clean arg df)"
  have gap: "\<forall>i<length ?lr. (?lr ! i \<noteq> None) = (0 < i)" using clean_gap [of arg df] by simp
  have t': "t < length ?lr" using t by simp
  have nonneg: "\<forall>w\<in>set windows. 0 \<le> w" using pre by (rule feature_table_windows)
  have a: "(log_return (pre ! t) \<noteq> None) = (0 < t)"
    using gap t' by (simp only: feature_table_fields(6) [OF pre t])
  have b: "list_all (\<lambda>c. c \<noteq> None) (r_lag (pre ! t)) =
           (\<forall>k\<in>set lags. 1 \<le> int t - k \<and> int t - k < int (length (clean arg df)))"
    using shift_defined [OF gap t'] by (simp add: feature_table_fields(7) [OF pre t] list_all_iff)
  have c: "list_all (\<lambda>c. c \<noteq> None) (r_roll_mean (pre ! t)) = (\<forall>w\<in>set windows. 1 \<le> w \<and> w \<le> int t)"
  proof -
    have "(1 \<le> nat w \<and> nat w \<le> t) = (1 \<le> w \<and> w \<le> int t)" if "w \<in> set windows" for w
      using nonneg that by auto
    then show ?thesis
      using rolling_mean_defined [OF gap t']
      by (simp add: feature_table_fields(8) [OF pre t] list_all_iff)
  qed
  have d: "list_all (\<lambda>c. c \<noteq> None) (r_roll_std (pre ! t)) = (\<forall>w\<in>set windows. 2 \<le> w \<and> w \<le> int t)"
  proof -
    have "(2 \<le> nat w \<and> nat w \<le> t) = (2 \<le> w \<and> w \<le> int t)" if "w \<in> set windows" for w
      using nonneg that by auto
    then show ?thesis
      using rolling_std_defined [OF gap t']
      by (simp add: feature_table_fields(9) [OF pre t] list_all_iff)
  qed
  have e: "(y_next_return (pre ! t) \<noteq> None) = (Suc t < length (clean arg df))"
    using target_defined [OF gap t'] by (simp add: feature_table_fields(10) [OF pre t])
  show ?thesis
    unfolding feats_defined_def a b c d e by fastforce
qed

lemma row_complete_iff:
  assumes pre: "feature_table arg df lags windows = Inr pre" and t: "t < length (clean arg df)"
  shows "row_complete (pre ! t) \<longleftrightarrow> date (clean arg df ! t) \<noteq> None \<and> feats_defined (pre ! t)"
proof -
  have "clean arg df ! t \<in> set (clean arg df)" using t by simp
  then obtain v where v: "val (clean arg df ! t) = Some v" using clean_positive by blast
  have "val (pre ! t) \<noteq> None" by (simp add: feature_table_fields(4) [OF pre t] v)
  moreover have "log_price (pre ! t) \<noteq> None"
    using t by (simp add: feature_table_fields(5) [OF pre t] log_price_col_def v)
  moreover have "date (pre ! t) = date (clean arg df ! t)" by (rule feature_table_fields(3) [OF pre t])
  ultimately show ?thesis
    by (simp add: row_complete_def feats_defined_def)
qed

subsection \<open>The rows returned and their target\<close>

lemma filter_by_position:
  "filter P xs = map ((!) xs) (filter (\<lambda>i. P (xs ! i)) [0..<length xs])"
proof -
  have "filter P (map ((!) xs) [0..<length xs]) = map ((!) xs) (filter (\<lambda>i. P (xs ! i)) [0..<length xs])"
    by (simp add: filter_map comp_def)
  then show ?thesis by (simp add: map_nth)
qed

lemma buildFeatureMatrix_Inr:
  assumes "buildFeatureMatrix arg df lags windows = Inr out"
  obtains pre where "feature_table arg df lags windows = Inr pre" and "out = reset_index (dropna pre)"
  using assms by (auto simp: buildFeatureMatrix_def split: sum.splits)

lemma buildFeatureMatrix_eq:
  assumes "feature_table arg df lags windows = Inr pre"
  shows "buildFeatureMatrix arg df lags windows = Inr (reset_index (dropna pre))"
  using assms by (simp add: buildFeatureMatrix_def)

lemma length_reset_index [simp]: "length (reset_index df) = length df"
  by (simp add: reset_index_def)

lemma nth_reset_index: "j < length df \<Longrightarrow> reset_index df ! j = (df ! j)\<lparr>idx := int j\<rparr>"
  by (simp add: reset_index_def)

lemma in_reset_index:
  assumes "r \<in> set (reset_index rows)"
  obtains j where "j < length rows" and "r = (rows ! j)\<lparr>idx := int j\<rparr>"
  using assms by (auto simp: reset_index_def)

lemma in_dropna:
  assumes "r \<in> set (dropna pre)"
  obtains t where "t < length pre" and "r = pre ! t" and "row_complete (pre ! t)"
  using assms by (auto simp: dropna_def in_set_conv_nth)

lemma output_row:
  assumes out: "buildFeatureMatrix arg df lags windows = Inr out" and r: "r \<in> set out"
  obtains pre t j where "feature_table arg df lags windows = Inr pre" and "t < length (clean arg df)"
    and "row_complete (pre ! t)" and "r = (pre ! t)\<lparr>idx := int j\<rparr>"
proof -
  from out obtain pre where pre: "feature_table arg df lags windows = Inr pre"
    and o: "out = reset_index (dropna pre)" by (rule buildFeatureMatrix_Inr)
  from r o obtain j where j: "j < length (dropna pre)" "r = (dropna pre ! j)\<lparr>idx := int j\<rparr>"
    by (auto elim: in_reset_index)
  from j(1) have "dropna pre ! j \<in> set (dropna pre)" by simp
  then obtain t where t: "t < length pre" "dropna pre ! j = pre ! t" "row_complete (pre ! t)"
    by (rule in_dropna)
  from t(1) have "t < length (clean arg df)" by (simp add: feature_table_length [OF pre])
  with pre t j show ?thesis by (auto intro: that)
qed

lemma target_value:
  assumes pre: "feature_table arg df lags windows = Inr pre" and t: "Suc t < length (clean arg df)"
  obtains v0 v1 where "val (clean arg df ! t) = Some v0" and "val (clean arg df ! Suc t) = Some v1"
    and "0 < v0" and "0 < v1"
    and "log_return (pre ! Suc t) = Some (ln v1 - ln v0)"
    and "y_next_return (pre ! t) = log_return (pre ! Suc t)"
proof -
  have t0: "t < length (clean arg df)" using t by simp
  have "clean arg df ! t \<in> set (clean arg df)" "clean arg df ! Suc t \<in> set (clean arg df)" using t by simp_all
  then obtain v0 v1 where v: "val (clean arg df ! t) = Some v0" "0 < v0" "val (clean arg df ! Suc t) = Some v1" "0 < v1"
    using clean_positive by blast
  have lr: "log_return_col (clean arg df) ! Suc t = Some (ln v1 - ln v0)"
    using t v by (intro log_return_value) simp_all
  have a: "log_return (pre ! Suc t) = Some (ln v1 - ln v0)"
    by (simp add: feature_table_fields(6) [OF pre t] lr)
  have "y_next_return (pre ! t) = log_return_col (clean arg df) ! Suc t"
    using t by (simp add: feature_table_fields(10) [OF pre t0] shift_back_nth)
  then have b: "y_next_return (pre ! t) = log_return (pre ! Suc t)"
    by (simp add: feature_table_fields(6) [OF pre t])
  from v a b show ?thesis by (auto intro: that)
qed

text \<open>
  C1.  Every row of the table \<open>buildFeatureMatrix\<close> returns is a row \<open>t\<close> of the
  frame before \<open>dropna\<close> (with a new index label), that frame has a row \<open>t + 1\<close>, and
  the row's \<open>y_next_return\<close> is the \<open>log_return\<close> of row \<open>t + 1\<close>, which is
  \<open>ln (value[t+1]) - ln (value[t])\<close>.  The row's own \<open>log_return\<close> is that of row
  \<open>t\<close>, so the target is read one position later than anything else in the row.
\<close>

theorem target_is_next_return:
  assumes "buildFeatureMatrix arg df lags windows = Inr out" and "r \<in> set out"
  shows "\<exists>pre t v0 v1.
           feature_table arg df lags windows = Inr pre \<and> length pre = length (clean arg df) \<and>
           Suc t < length pre \<and>
           r\<lparr>idx := idx (pre ! t)\<rparr> = pre ! t \<and>
           date r = date (clean arg df ! t) \<and>
           val (clean arg df ! t) = Some v0 \<and> val (clean arg df ! Suc t) = Some v1 \<and>
           log_return (pre ! Suc t) = Some (ln v1 - ln v0) \<and>
           y_next_return r = log_return (pre ! Suc t) \<and>
           y_next_return r = Some (ln v1 - ln v0)"
proof -
  from assms obtain pre t j where pre: "feature_table arg df lags windows = Inr pre"
    and t: "t < length (clean arg df)" and c: "row_complete (pre ! t)"
    and r: "r = (pre ! t)\<lparr>idx := int j\<rparr>"
    by (rule output_row)
  have len: "length pre = length (clean arg df)" using pre by (rule feature_table_length)
  from c have "feats_defined (pre ! t)" by (simp add: row_complete_iff [OF pre t])
  then have st: "Suc t < length (clean arg df)" by (simp add: feats_defined_iff [OF pre t])
  from pre st obtain v0 v1 where v: "val (clean arg df ! t) = Some v0" "val (clean arg df ! Suc t) = Some v1"
    "log_return (pre ! Suc t) = Some (ln v1 - ln v0)"
    "y_next_return (pre ! t) = log_return (pre ! Suc t)"
    by (rule target_value)
  have "r\<lparr>idx := idx (pre ! t)\<rparr> = pre ! t" by (simp add: r)
  moreover have "date r = date (clean arg df ! t)"
    by (simp add: r feature_table_fields(3) [OF pre t])
  moreover have "y_next_return r = log_return (pre ! Suc t)" by (simp add: r v(4))
  ultimately show ?thesis using pre len st v by auto
qed

subsection \<open>The rows that survive dropna\<close>

lemma filter_interval:
  assumes "\<forall>t<n. P t = (a \<le> t \<and> t < b)" and "b \<le> n"
  shows "filter P [0..<n] = [a..<b]"
proof -
  have "filter P [0..<n] = filter (\<lambda>t. a \<le> t \<and> t < b) [0..<n]"
    using assms(1) by (intro filter_cong) auto
  also have "\<dots> = [a..<b]"
  proof (rule sorted_distinct_set_unique)
    show "sorted (filter (\<lambda>t. a \<le> t \<and> t < b) [0..<n])"
      by (rule sorted_wrt_filter) simp
    show "set (filter (\<lambda>t. a \<le> t \<and> t < b) [0..<n]) = set [a..<b]"
      using assms(2) by auto
  qed simp_all
  finally show ?thesis .
qed

lemma feats_defined_interval:
  assumes pre: "feature_table arg df lags windows = Inr pre" and t: "t < length (clean arg df)"
    and lags: "\<forall>k\<in>set lags. - 1 \<le> k" and windows: "\<forall>w\<in>set windows. 2 \<le> w"
  shows "feats_defined (pre ! t) \<longleftrightarrow>
           nat (Max (set (1 # map (\<lambda>k. k + 1) lags @ windows))) \<le> t \<and> t < length (clean arg df) - 1"
proof -
  let ?A = "set (1 # map (\<lambda>k. k + 1) lags @ windows)"
  have "(Max ?A \<le> int t) = (\<forall>a\<in>?A. a \<le> int t)"
    by (rule Max_le_iff) simp_all
  also have "\<dots> = (1 \<le> int t \<and> (\<forall>k\<in>set lags. k + 1 \<le> int t) \<and> (\<forall>w\<in>set windows. w \<le> int t))"
    by auto
  finally have m: "(Max ?A \<le> int t) =
      (1 \<le> int t \<and> (\<forall>k\<in>set lags. k + 1 \<le> int t) \<and> (\<forall>w\<in>set windows. w \<le> int t))" .
  have "1 \<le> Max ?A" by (rule Max_ge) simp_all
  then have n: "(nat (Max ?A) \<le> t) = (Max ?A \<le> int t)" by linarith
  show ?thesis
  proof (cases "t < length (clean arg df) - 1")
    case True
    have k: "(1 \<le> int t - k \<and> int t - k < int (length (clean arg df))) = (k + 1 \<le> int t)"
      if "k \<in> set lags" for k
      using lags that True by fastforce
    have w: "(2 \<le> w \<and> w \<le> int t) = (w \<le> int t)" if "w \<in> set windows" for w
      using windows that by fastforce
    have s: "Suc t < length (clean arg df)" using True by linarith
    show ?thesis
      unfolding feats_defined_iff [OF pre t] n m using k w s True by auto
  next
    case False
    then have "\<not> Suc t < length (clean arg df)" by linarith
    with False show ?thesis
      unfolding feats_defined_iff [OF pre t] by blast
  qed
qed

lemma valid_offsets_interval:
  assumes pre: "feature_table arg df lags windows = Inr pre"
    and lags: "\<forall>k\<in>set lags. - 1 \<le> k" and windows: "\<forall>w\<in>set windows. 2 \<le> w"
  shows "valid_offsets pre =
           [nat (Max (set (1 # map (\<lambda>k. k + 1) lags @ windows)))..<length (clean arg df) - 1]"
  unfolding valid_offsets_def feature_table_length [OF pre]
  by (rule filter_interval) (simp_all add: feats_defined_interval [OF pre _ lags windows])

lemma dropna_interval:
  assumes pre: "feature_table arg df lags windows = Inr pre"
    and lags: "\<forall>k\<in>set lags. - 1 \<le> k" and windows: "\<forall>w\<in>set windows. 2 \<le> w"
    and dates: "\<forall>r\<in>set (clean arg df). date r \<noteq> None"
  shows "dropna pre =
           map ((!) pre) [nat (Max (set (1 # map (\<lambda>k. k + 1) lags @ windows)))..<length (clean arg df) - 1]"
proof -
  have "row_complete (pre ! t) = feats_defined (pre ! t)" if "t < length (clean arg df)" for t
    using dates that by (simp add: row_complete_iff [OF pre that])
  then have "filter (\<lambda>t. row_complete (pre ! t)) [0..<length (clean arg df)] = valid_offsets pre"
    unfolding valid_offsets_def feature_table_length [OF pre]
    by (intro filter_cong) auto
  then show ?thesis
    unfolding dropna_def
    by (subst filter_by_position)
       (simp add: feature_table_length [OF pre] valid_offsets_interval [OF pre lags windows])
qed

lemma buildFeatureMatrix_rows:
  assumes lags: "\<forall>k\<in>set lags. - 1 \<le> k \<and> k < 2 ^ 63"
    and windows: "\<forall>w\<in>set windows. 2 \<le> w \<and> w < 2 ^ 63"
    and dates: "\<forall>r\<in>set (clean arg df). date r \<noteq> None"
  obtains pre where "feature_table arg df lags windows = Inr pre"
    and "buildFeatureMatrix arg df lags windows =
           Inr (reset_index (map ((!) pre)
                  [nat (Max (set (1 # map (\<lambda>k. k + 1) lags @ windows)))..<length (clean arg df) - 1]))"
proof -
  have "\<forall>k\<in>set lags. in_int64 k" using lags by (fastforce simp: in_int64_def)
  moreover have "\<forall>w\<in>set windows. 0 \<le> w \<and> w < 2 ^ 63" using windows by fastforce
  ultimately obtain pre where pre: "feature_table arg df lags windows = Inr pre"
    by (rule feature_table_ok)
  have l: "\<forall>k\<in>set lags. - 1 \<le> k" and w: "\<forall>w\<in>set windows. 2 \<le> w"
    using lags windows by blast+
  show ?thesis
    using pre by (rule that) (simp add: buildFeatureMatrix_eq [OF pre] dropna_interval [OF pre l w dates])
qed

lemma buildFeatureMatrix_length:
  assumes lags: "\<forall>k\<in>set lags. - 1 \<le> k \<and> k < 2 ^ 63"
    and windows: "\<forall>w\<in>set windows. 2 \<le> w \<and> w < 2 ^ 63"
    and dates: "\<forall>r\<in>set (clean arg df). date r \<noteq> None"
  shows "map_sum id length (buildFeatureMatrix arg df lags windows) =
           Inr (length (clean arg df) - 1 - nat (Max (set (1 # map (\<lambda>k. k + 1) lags @ windows))))"
proof -
  from assms obtain pre where
    "buildFeatureMatrix arg df lags windows =
           Inr (reset_index (map ((!) pre)
                  [nat (Max (set (1 # map (\<lambda>k. k + 1) lags @ windows)))..<length (clean arg df) - 1]))"
    by (rule buildFeatureMatrix_rows)
  then show ?thesis by simp
qed

lemma length_growth_series [simp]: "length (growth_series v0 n) = n"
  by (simp add: growth_series_def)

lemma growth_series_dates: "\<forall>r\<in>set (growth_series v0 n). date r \<noteq> None"
  by (auto simp: growth_series_def)

lemma date_key_inj: "inj date_key"
  by (rule injI) (auto simp: date_key_def split: option.splits)

lemma argsort_ok_stable: "argsort_ok argsort_stable"
  by (simp add: argsort_ok_def argsort_stable_def)

lemma argsort_ok_rev: "argsort_ok argsort_rev"
  by (simp add: argsort_ok_def argsort_rev_def)

text \<open>With \<open>argsort_stable\<close> the sort is the stable sort by date.\<close>

lemma insort_key_map_nth: "insort_key f (g x) (map g ys) = map g (insort_key (\<lambda>i. f (g i)) x ys)"
  by (induction ys) simp_all

lemma sort_key_map_nth: "sort_key f (map g xs) = map g (sort_key (\<lambda>i. f (g i)) xs)"
  by (induction xs) (simp_all add: insort_key_map_nth)

lemma insort_key_agree:
  assumes "f x = g x" and "\<forall>y\<in>set ys. f y = g y"
  shows "insort_key f x ys = insort_key g x ys"
  using assms by (induction ys) simp_all

lemma sort_key_agree:
  assumes "\<forall>x\<in>set xs. f x = g x"
  shows "sort_key f xs = sort_key g xs"
  using assms
proof (induction xs)
  case Nil
  show ?case by simp
next
  case (Cons x xs)
  then have "sort_key f xs = sort_key g xs" by simp
  moreover have "insort_key f x (sort_key g xs) = insort_key g x (sort_key g xs)"
    using Cons.prems by (intro insort_key_agree) simp_all
  ultimately show ?case by simp
qed

lemma sort_values_stable:
  "sort_values argsort_stable df = sort_key (\<lambda>r. date_key (date r)) df"
proof -
  let ?key = "\<lambda>r. date_key (date r)"
  have "sort_key ?key df = sort_key ?key (map ((!) df) [0..<length df])" by (simp only: map_nth)
  also have "\<dots> = map ((!) df) (sort_key (\<lambda>i. ?key (df ! i)) [0..<length df])"
    by (rule sort_key_map_nth)
  also have "sort_key (\<lambda>i. ?key (df ! i)) [0..<length df] = sort_key ((!) (map ?key df)) [0..<length df]"
    by (rule sort_key_agree) simp
  finally show ?thesis by (simp add: sort_values_def argsort_stable_def)
qed

lemma argsort_positions:
  assumes "argsort_ok arg"
  shows "mset (arg ks) = mset [0..<length ks]" and "sorted (map ((!) ks) (arg ks))"
    and "length (arg ks) = length ks" and "\<forall>i\<in>set (arg ks). i < length ks"
    and "distinct (arg ks)"
proof -
  show m: "mset (arg ks) = mset [0..<length ks]" and "sorted (map ((!) ks) (arg ks))"
    using assms by (simp_all add: argsort_ok_def)
  from m have "size (mset (arg ks)) = size (mset [0..<length ks])" by (simp only: )
  then show "length (arg ks) = length ks" by simp
  from m have "set (arg ks) = set [0..<length ks]" by (rule mset_eq_setD)
  then show "\<forall>i\<in>set (arg ks). i < length ks" by simp
  from m have "distinct (arg ks) \<longleftrightarrow> distinct [0..<length ks]" by (rule mset_eq_imp_distinct_iff)
  then show "distinct (arg ks)" by simp
qed

lemma sort_values_mset:
  assumes "argsort_ok arg"
  shows "mset (sort_values arg df) = mset df"
proof -
  let ?is = "arg (map (\<lambda>r. date_key (date r)) df)"
  have "mset ?is = mset [0..<length df]" using argsort_positions(1) [OF assms, of "map (\<lambda>r. date_key (date r)) df"] by simp
  then have "image_mset ((!) df) (mset ?is) = image_mset ((!) df) (mset [0..<length df])"
    by (simp only: )
  then have "mset (map ((!) df) ?is) = mset (map ((!) df) [0..<length df])" by (simp only: mset_map)
  then show ?thesis by (simp only: sort_values_def map_nth)
qed

lemma sort_values_keys:
  assumes "argsort_ok arg"
  shows "map (\<lambda>r. date_key (date r)) (sort_values arg df) =
           map ((!) (map (\<lambda>r. date_key (date r)) df)) (arg (map (\<lambda>r. date_key (date r)) df))"
proof -
  let ?ks = "map (\<lambda>r. date_key (date r)) df"
  have "\<forall>i\<in>set (arg ?ks). i < length df"
    using argsort_positions(4) [OF assms, of ?ks] by simp
  then have "map (\<lambda>i. date_key (date (df ! i))) (arg ?ks) = map ((!) ?ks) (arg ?ks)"
    by (intro map_cong) simp_all
  then show ?thesis by (simp add: sort_values_def comp_def)
qed

lemma sort_values_sorted:
  assumes "argsort_ok arg"
  shows "sorted (map (\<lambda>r. date_key (date r)) (sort_values arg df))"
  using argsort_positions(2) [OF assms, of "map (\<lambda>r. date_key (date r)) df"]
  by (simp only: sort_values_keys [OF assms])

lemma sort_values_distinct:
  assumes "argsort_ok arg" and "distinct (map date df)"
  shows "sort_values arg df = sort_key (\<lambda>r. date_key (date r)) df"
proof -
  have "inj_on date (set df)" using assms(2) by (simp add: distinct_map)
  then have "inj_on (\<lambda>r. date_key (date r)) (set df)"
    using date_key_inj by (auto simp: inj_on_def)
  moreover have "mset df = mset (sort_values arg df)" using assms(1) by (simp add: sort_values_mset)
  moreover have "sorted (map (\<lambda>r. date_key (date r)) (sort_values arg df))" using assms(1) by (rule sort_values_sorted)
  ultimately have "sort_key (\<lambda>r. date_key (date r)) df = sort_values arg df"
    by (intro sort_key_inj_key_eq)
  then show ?thesis by simp
qed

lemma growth_series_distinct: "distinct (map date (growth_series v0 n))"
  by (simp add: growth_series_def comp_def distinct_map inj_on_def)

lemma sort_values_growth:
  assumes "argsort_ok arg"
  shows "sort_values arg (growth_series v0 n) = growth_series v0 n"
proof -
  have "sort_key (\<lambda>r. date_key (date r)) (growth_series v0 n) = growth_series v0 n"
    by (rule sort_key_id_if_sorted)
       (simp add: growth_series_def comp_def date_key_def sorted_iff_nth_mono)
  with sort_values_distinct [OF assms growth_series_distinct] show ?thesis by simp
qed

lemma clean_growth:
  assumes "argsort_ok arg" and "0 < v0"
  shows "clean arg (growth_series v0 n) = growth_series v0 n"
  unfolding clean_def sort_values_growth [OF assms(1)]
  using assms(2) by (intro filter_True) (auto simp: growth_series_def)

subsection \<open>Row counts and offsets\<close>




lemma feature_table_growth:
  assumes "argsort_ok arg" and "0 < v0"
    and "\<forall>k\<in>set lags. in_int64 k" and "\<forall>w\<in>set windows. 0 \<le> w \<and> w < 2 ^ 63"
  obtains pre where "feature_table arg (growth_series v0 n) lags windows = Inr pre"
    and "length pre = n"
proof -
  from assms(3,4) obtain pre where pre: "feature_table arg (growth_series v0 n) lags windows = Inr pre"
    by (rule feature_table_ok)
  have "length pre = n"
    using feature_table_length [OF pre] by (simp add: clean_growth [OF assms(1,2)])
  with pre show ?thesis by (rule that)
qed

text \<open>
  C2, as stated: twenty observations each 1% above the previous one, \<open>lags = [1]\<close> and
  \<open>windows = [3]\<close> give 15 rows.  The rows lost to the lag and to the window overlap
  with each other and with the row lost to \<open>diff\<close>: positions 0, 1, 2 and 19 are dropped.
  No sort by date makes the count 15.
\<close>

theorem growth_row_count_counterexample:
  "\<not> (\<exists>arg. argsort_ok arg \<and>
        map_sum id length (buildFeatureMatrix arg (growth_series 100 20) [1] [3]) = Inr 15)"
proof
  assume "\<exists>arg. argsort_ok arg \<and>
        map_sum id length (buildFeatureMatrix arg (growth_series 100 20) [1] [3]) = Inr 15"
  then obtain arg where s: "argsort_ok arg"
    and e: "map_sum id length (buildFeatureMatrix arg (growth_series 100 20) [1] [3]) = Inr 15"
    by blast
  from buildFeatureMatrix_length [of "[1]" "[3]" arg "growth_series 100 20"] e
  show False by (simp add: clean_growth [OF s] growth_series_dates)
qed

text \<open>
  C2, amended: the table has 16 rows, whatever the (positive) first value and whatever the
  sort does with equal dates (the series has none).
\<close>

theorem growth_row_count:
  assumes "argsort_ok arg" and "0 < v0"
  shows "map_sum id length (buildFeatureMatrix arg (growth_series v0 20) [1] [3]) = Inr 16"
  using buildFeatureMatrix_length [of "[1]" "[3]" arg "growth_series v0 20"]
  by (simp add: clean_growth [OF assms] growth_series_dates)

theorem growth_row_count_witness:
  "argsort_ok argsort_stable \<and>
   map_sum id length (buildFeatureMatrix argsort_stable (growth_series 100 20) [1] [3]) = Inr 16"
  using growth_row_count [OF argsort_ok_stable, of 100] by (simp add: argsort_ok_stable)




subsection \<open>Instances\<close>

text \<open>The claims at work on short series growing by 1% per step.\<close>

theorem target_is_next_return_witness:
  "\<exists>out r pre t v0 v1.
     buildFeatureMatrix argsort_stable (growth_series 100 4) [1] [2] = Inr out \<and> r \<in> set out \<and>
     feature_table argsort_stable (growth_series 100 4) [1] [2] = Inr pre \<and> Suc t < length pre \<and>
     r\<lparr>idx := idx (pre ! t)\<rparr> = pre ! t \<and>
     val (clean argsort_stable (growth_series 100 4) ! t) = Some v0 \<and>
     val (clean argsort_stable (growth_series 100 4) ! Suc t) = Some v1 \<and>
     y_next_return r = log_return (pre ! Suc t) \<and>
     y_next_return r = Some (ln v1 - ln v0)"
proof -
  have "map_sum id length (buildFeatureMatrix argsort_stable (growth_series 100 4) [1] [2]) = Inr 1"
    using buildFeatureMatrix_length [of "[1]" "[2]" argsort_stable "growth_series 100 4"]
    by (simp add: clean_growth [OF argsort_ok_stable] growth_series_dates)
  then obtain out where out: "buildFeatureMatrix argsort_stable (growth_series 100 4) [1] [2] = Inr out"
    and len: "length out = 1"
    by (cases "buildFeatureMatrix argsort_stable (growth_series 100 4) [1] [2]") auto
  from len have r: "out ! 0 \<in> set out" by simp
  from target_is_next_return [OF out r] out r show ?thesis by blast
qed

subsection \<open>Rolling features\<close>

lemma window_one_empty:
  assumes "feature_table arg df lags windows = Inr pre" and "\<exists>w\<in>set windows. w < 2"
  shows "buildFeatureMatrix arg df lags windows = Inr []"
proof -
  have "\<not> row_complete (pre ! t)" if "t < length (clean arg df)" for t
    using assms(2) by (fastforce simp: row_complete_iff [OF assms(1) that] feats_defined_iff [OF assms(1) that])
  then have "\<not> row_complete r" if "r \<in> set pre" for r
    using that feature_table_length [OF assms(1)] by (auto simp: in_set_conv_nth)
  then have "dropna pre = []" by (simp add: dropna_def)
  then show ?thesis by (simp add: buildFeatureMatrix_eq [OF assms(1)] reset_index_def)
qed

lemma window_returns:
  assumes pre: "feature_table arg df lags windows = Inr pre" and t: "t < length (clean arg df)"
    and w: "1 \<le> w" "w \<le> t"
  shows "map (\<lambda>i. log_return (pre ! i)) [Suc t - w..<Suc t] =
           map Some (map (\<lambda>i. the (log_return_col (clean arg df) ! i)) [Suc t - w..<Suc t])"
proof -
  have "log_return (pre ! i) = Some (the (log_return_col (clean arg df) ! i))"
    if "i \<in> set [Suc t - w..<Suc t]" for i
  proof -
    from that have "Suc t - w \<le> i" "i < Suc t" by (simp_all only: set_upt atLeastLessThan_iff)
    with w t have i: "0 < i" "i < length (clean arg df)" by linarith+
    with clean_gap [of arg df] have "log_return_col (clean arg df) ! i \<noteq> None" by blast
    then show ?thesis by (simp only: feature_table_fields(6) [OF pre i(2)]) fastforce
  qed
  then show ?thesis by (simp only: map_map comp_def cong: map_cong) 
qed

text \<open>
  C4.  At a position \<open>t\<close> whose window of \<open>w\<close> log returns \<open>log_return[t-w+1..t]\<close>
  is present, \<open>r_roll_mean_w[t]\<close> is their arithmetic mean and, for \<open>w \<ge> 2\<close>,
  \<open>r_roll_std_w[t]\<close> is their standard deviation with the divisor \<open>w - 1\<close>.  For
  \<open>w = 1\<close> the standard deviation is missing, not 0, and since that holds in every row
  the table returned is empty.
\<close>

theorem rolling_features:
  assumes pre: "feature_table arg df lags windows = Inr pre"
    and j: "j < length windows" and t: "t < length pre"
    and w: "1 \<le> windows ! j"
    and hist: "\<forall>i\<in>{Suc t - nat (windows ! j)..t}. log_return (pre ! i) \<noteq> None"
  shows "\<exists>rs. map (\<lambda>i. log_return (pre ! i)) [Suc t - nat (windows ! j)..<Suc t] = map Some rs \<and>
           int (length rs) = windows ! j \<and>
           r_roll_mean (pre ! t) ! j = Some (sum_list rs / real (length rs)) \<and>
           r_roll_std (pre ! t) ! j =
             (if windows ! j = 1 then None
              else Some (sqrt (sum_list (map (\<lambda>x. (x - sum_list rs / real (length rs))\<^sup>2) rs)
                               / real (length rs - 1)))) \<and>
           (windows ! j = 1 \<longrightarrow> buildFeatureMatrix arg df lags windows = Inr [])"
proof -
  let ?w = "nat (windows ! j)"
  let ?lr = "log_return_col (clean arg df)"
  let ?rs = "map (\<lambda>i. the (?lr ! i)) [Suc t - ?w..<Suc t]"
  have len: "length pre = length (clean arg df)" using pre by (rule feature_table_length)
  have t': "t < length (clean arg df)" using t len by simp
  have gap: "\<forall>i<length ?lr. (?lr ! i \<noteq> None) = (0 < i)" using clean_gap [of arg df] by simp
  have tl: "t < length ?lr" using t' by simp
  have w1: "1 \<le> ?w" using w by linarith
  have wt: "?w \<le> t"
  proof (rule ccontr)
    assume "\<not> ?w \<le> t"
    then have "0 \<in> {Suc t - ?w..t}" by simp
    with hist have "log_return (pre ! 0) \<noteq> None" by blast
    moreover have "0 < length (clean arg df)" using t' by linarith
    ultimately show False
      using gap by (simp add: feature_table_fields(6) [OF pre])
  qed
  have a: "map (\<lambda>i. log_return (pre ! i)) [Suc t - ?w..<Suc t] = map Some ?rs"
    using pre t' w1 wt by (rule window_returns)
  have b: "length ?rs = ?w" using wt by simp
  have b': "int (length ?rs) = windows ! j" using w wt by simp
  have "r_roll_mean (pre ! t) ! j = rolled_mean ?w ?lr ! t"
    using j by (simp add: feature_table_fields(8) [OF pre t'])
  also have "\<dots> = Some (sum_list ?rs / real ?w)"
    using w1 wt by (simp add: nth_rolled_mean [OF gap tl])
  finally have c: "r_roll_mean (pre ! t) ! j = Some (sum_list ?rs / real (length ?rs))"
    by (simp only: b)
  have "r_roll_std (pre ! t) ! j = rolled_std ?w ?lr ! t"
    using j by (simp add: feature_table_fields(9) [OF pre t'])
  also have "\<dots> = (if 2 \<le> ?w \<and> ?w \<le> t
            then Some (sqrt (sum_list (map (\<lambda>x. (x - sum_list ?rs / real ?w)\<^sup>2) ?rs) / real (?w - 1)))
            else None)"
    by (rule nth_rolled_std [OF gap tl])
  also have "\<dots> = (if windows ! j = 1 then None
              else Some (sqrt (sum_list (map (\<lambda>x. (x - sum_list ?rs / real ?w)\<^sup>2) ?rs) / real (?w - 1))))"
    using w wt by auto
  finally have d: "r_roll_std (pre ! t) ! j =
             (if windows ! j = 1 then None
              else Some (sqrt (sum_list (map (\<lambda>x. (x - sum_list ?rs / real (length ?rs))\<^sup>2) ?rs)
                               / real (length ?rs - 1))))"
    by (simp only: b)
  have e: "buildFeatureMatrix arg df lags windows = Inr []" if "windows ! j = 1"
  proof -
    have "windows ! j \<in> set windows" using j by simp
    moreover have "windows ! j < 2" using that by simp
    ultimately have "\<exists>w\<in>set windows. w < 2" by (rule rev_bexI)
    with pre show ?thesis by (rule window_one_empty)
  qed
  from a b' c d e show ?thesis by blast
qed

lemma growth_returns_present:
  assumes arg: "argsort_ok arg"
    and pre: "feature_table arg (growth_series 100 n) lags windows = Inr pre"
    and i: "0 < i" "i < n"
  shows "log_return (pre ! i) \<noteq> None"
proof -
  have c: "clean arg (growth_series 100 n) = growth_series 100 n" by (simp add: clean_growth [OF arg])
  have l: "i < length (clean arg (growth_series 100 n))" using i by (simp add: c)
  with clean_gap [of arg "growth_series 100 n"] i(1)
  have "log_return_col (clean arg (growth_series 100 n)) ! i \<noteq> None" by blast
  then show ?thesis by (simp only: feature_table_fields(6) [OF pre l] not_False_eq_True)
qed

theorem rolling_features_witness:
  "(\<exists>pre rs. feature_table argsort_stable (growth_series 100 5) [] [2] = Inr pre \<and>
      map (\<lambda>i. log_return (pre ! i)) [1..<3] = map Some rs \<and> int (length rs) = 2 \<and>
      r_roll_mean (pre ! 2) ! 0 = Some (sum_list rs / real (length rs)) \<and>
      r_roll_std (pre ! 2) ! 0 =
        Some (sqrt (sum_list (map (\<lambda>x. (x - sum_list rs / real (length rs))\<^sup>2) rs)
                    / real (length rs - 1)))) \<and>
   (\<exists>pre. feature_table argsort_stable (growth_series 100 5) [] [1] = Inr pre \<and>
      r_roll_std (pre ! 1) ! 0 = None \<and>
      buildFeatureMatrix argsort_stable (growth_series 100 5) [] [1] = Inr [])"
proof
  obtain pre where pre: "feature_table argsort_stable (growth_series 100 5) [] [2] = Inr pre"
    and len: "length pre = 5"
    by (rule feature_table_growth [OF argsort_ok_stable, of 100 "[]" "[2]" 5]) simp_all
  have hist: "\<forall>i\<in>{Suc 2 - nat ([2] ! 0)..2}. log_return (pre ! i) \<noteq> None"
    using growth_returns_present [OF argsort_ok_stable pre] by simp
  have j: "0 < length [2 :: int]" and t: "2 < length pre" and w: "1 \<le> [2 :: int] ! 0"
    using len by simp_all
  from rolling_features [OF pre j t w hist] obtain rs where
    rs: "map (\<lambda>i. log_return (pre ! i)) [Suc 2 - nat ([2] ! 0)..<Suc 2] = map Some rs"
      "int (length rs) = [2] ! 0"
      "r_roll_mean (pre ! 2) ! 0 = Some (sum_list rs / real (length rs))"
      "r_roll_std (pre ! 2) ! 0 =
         (if [2 :: int] ! 0 = 1 then None
          else Some (sqrt (sum_list (map (\<lambda>x. (x - sum_list rs / real (length rs))\<^sup>2) rs)
                           / real (length rs - 1))))"
    by blast
  have "[Suc 2 - nat ([2] ! 0)..<Suc 2] = [1..<3]" by simp
  with rs(1) have a: "map (\<lambda>i. log_return (pre ! i)) [1..<3] = map Some rs" by (simp only: )
  from rs(2) have b: "int (length rs) = 2" by simp
  from rs(4) have d: "r_roll_std (pre ! 2) ! 0 =
        Some (sqrt (sum_list (map (\<lambda>x. (x - sum_list rs / real (length rs))\<^sup>2) rs)
                    / real (length rs - 1)))" by simp
  from pre a b rs(3) d show "\<exists>pre rs. feature_table argsort_stable (growth_series 100 5) [] [2] = Inr pre \<and>
      map (\<lambda>i. log_return (pre ! i)) [1..<3] = map Some rs \<and> int (length rs) = 2 \<and>
      r_roll_mean (pre ! 2) ! 0 = Some (sum_list rs / real (length rs)) \<and>
      r_roll_std (pre ! 2) ! 0 =
        Some (sqrt (sum_list (map (\<lambda>x. (x - sum_list rs / real (length rs))\<^sup>2) rs)
                    / real (length rs - 1)))"
    by blast
next
  obtain pre where pre: "feature_table argsort_stable (growth_series 100 5) [] [1] = Inr pre"
    and len: "length pre = 5"
    by (rule feature_table_growth [OF argsort_ok_stable, of 100 "[]" "[1]" 5]) simp_all
  have hist: "\<forall>i\<in>{Suc 1 - nat ([1] ! 0)..1}. log_return (pre ! i) \<noteq> None"
    using growth_returns_present [OF argsort_ok_stable pre] by simp
  have j: "0 < length [1 :: int]" and t: "1 < length pre" and w: "1 \<le> [1 :: int] ! 0"
    using len by simp_all
  from rolling_features [OF pre j t w hist]
  have "r_roll_std (pre ! 1) ! 0 = None" "buildFeatureMatrix argsort_stable (growth_series 100 5) [] [1] = Inr []"
    by auto
  with pre show "\<exists>pre. feature_table argsort_stable (growth_series 100 5) [] [1] = Inr pre \<and>
      r_roll_std (pre ! 1) ! 0 = None \<and>
      buildFeatureMatrix argsort_stable (growth_series 100 5) [] [1] = Inr []"
    by blast
qed

subsection \<open>Sorting of the input\<close>

lemma sort_values_permutation:
  assumes "argsort_ok arg" and "mset df' = mset df" and "distinct (map date df)"
  shows "sort_values arg df' = sort_values arg df"
proof -
  have "mset (map date df') = mset (map date df)" using assms(2) by simp
  then have "distinct (map date df') \<longleftrightarrow> distinct (map date df)" by (rule mset_eq_imp_distinct_iff)
  with assms(3) have d: "distinct (map date df')" by blast
  have "sort_key (\<lambda>r. date_key (date r)) df' = sort_key (\<lambda>r. date_key (date r)) df"
  proof (rule sort_key_inj_key_eq)
    show "mset df' = mset (sort_key (\<lambda>r. date_key (date r)) df)" using assms(2) by simp
    have "inj_on date (set df')" using d by (simp add: distinct_map)
    then show "inj_on (\<lambda>r. date_key (date r)) (set df')"
      using date_key_inj by (auto simp: inj_on_def)
    show "sorted (map (\<lambda>r. date_key (date r)) (sort_key (\<lambda>r. date_key (date r)) df))" by simp
  qed
  then show ?thesis
    by (simp only: sort_values_distinct [OF assms(1) d] sort_values_distinct [OF assms(1,3)])
qed

lemma clean_cong: "sort_values arg df' = sort_values arg df \<Longrightarrow> clean arg df' = clean arg df"
  by (simp add: clean_def)

lemma feature_table_cong:
  "clean arg df' = clean arg df \<Longrightarrow> feature_table arg df' lags windows = feature_table arg df lags windows"
  by (simp add: feature_table_def)

lemma buildFeatureMatrix_cong:
  assumes "sort_values arg df' = sort_values arg df"
  shows "buildFeatureMatrix arg df' lags windows = buildFeatureMatrix arg df lags windows"
proof -
  have "clean arg df' = clean arg df" using assms by (rule clean_cong)
  then have "feature_table arg df' lags windows = feature_table arg df lags windows"
    by (rule feature_table_cong)
  then show ?thesis by (simp only: buildFeatureMatrix_def)
qed

lemma buildFeatureMatrix_cong_args:
  assumes "sort_values arg' df' = sort_values arg df"
  shows "buildFeatureMatrix arg' df' lags windows = buildFeatureMatrix arg df lags windows"
proof -
  have "clean arg' df' = clean arg df" using assms by (simp add: clean_def)
  then have "feature_table arg' df' lags windows = feature_table arg df lags windows"
    by (simp add: feature_table_def)
  then show ?thesis by (simp only: buildFeatureMatrix_def)
qed

lemma clean_sorted: "argsort_ok arg \<Longrightarrow> sorted (map (\<lambda>r. date_key (date r)) (clean arg df))"
  unfolding clean_def by (rule sorted_filter) (rule sort_values_sorted)

lemma feature_table_dates:
  assumes "feature_table arg df lags windows = Inr pre"
  shows "map date pre = map date (clean arg df)"
  by (rule nth_equalityI)
     (simp_all add: feature_table_length [OF assms] feature_table_fields(3) [OF assms])

lemma reset_index_dates: "map date (reset_index rows) = map date rows"
  by (rule nth_equalityI) (simp_all add: nth_reset_index)

lemma reset_index_idx: "map idx (reset_index rows) = map int [0..<length rows]"
  by (rule nth_equalityI) (simp_all add: nth_reset_index)

lemma sorted_keys_dates:
  assumes "sorted (map (\<lambda>r. date_key (date r)) rows)" and "\<forall>r\<in>set rows. date r \<noteq> None"
  shows "sorted (map (\<lambda>r. the (date r)) rows)"
proof -
  have "sorted_wrt (\<lambda>x y. date_key (date x) \<le> date_key (date y)) rows"
    using assms(1) by (simp only: sorted_map)
  then have "sorted_wrt (\<lambda>x y. the (date x) \<le> the (date y)) rows"
  proof (rule sorted_wrt_mono_rel [rotated])
    fix x y assume "x \<in> set rows" "y \<in> set rows" and le: "date_key (date x) \<le> date_key (date y)"
    with assms(2) obtain a b where "date x = Some a" "date y = Some b" by fastforce
    with le show "the (date x) \<le> the (date y)" by (simp add: date_key_def)
  qed
  then show ?thesis by (simp only: sorted_map)
qed

lemma output_ascending:
  assumes arg: "argsort_ok arg" and "buildFeatureMatrix arg df lags windows = Inr out"
  shows "ascending_by_date out" and "map idx out = map int [0..<length out]"
proof -
  from assms(2) obtain pre where pre: "feature_table arg df lags windows = Inr pre"
    and out: "out = reset_index (dropna pre)" by (rule buildFeatureMatrix_Inr)
  have "map (\<lambda>r. date_key (date r)) pre = map date_key (map date pre)" by simp
  also have "\<dots> = map date_key (map date (clean arg df))" by (simp only: feature_table_dates [OF pre])
  also have "\<dots> = map (\<lambda>r. date_key (date r)) (clean arg df)" by simp
  finally have "sorted (map (\<lambda>r. date_key (date r)) pre)"
    using clean_sorted [OF arg, of df] by (simp only: )
  then have s: "sorted (map (\<lambda>r. date_key (date r)) (dropna pre))"
    unfolding dropna_def by (rule sorted_filter)
  have d: "\<forall>r\<in>set (dropna pre). date r \<noteq> None"
    by (auto simp: dropna_def row_complete_def)
  have "sorted (map (\<lambda>r. the (date r)) (dropna pre))" using s d by (rule sorted_keys_dates)
  then have "sorted (map (the \<circ> date) (dropna pre))" by (simp add: comp_def)
  then have "sorted (map the (map date out))"
    by (simp add: out reset_index_dates)
  then have a: "sorted (map (\<lambda>r. the (date r)) out)" by (simp add: comp_def)
  have "\<forall>d\<in>set (map date (dropna pre)). d \<noteq> None" using d by simp
  then have "\<forall>d\<in>set (map date out). d \<noteq> None" by (simp only: out reset_index_dates)
  then have b: "list_all (\<lambda>r. date r \<noteq> None) out" by (simp add: list_all_iff)
  from a b show "ascending_by_date out" by (simp add: ascending_by_date_def)
  show "map idx out = map int [0..<length out]" by (simp add: out reset_index_idx)
qed

lemma length_tied_series [simp]: "length tied_series = 17"
  by (simp add: tied_series_def)

lemma tied_series_rows:
  "tied_series =
     [\<lparr>idx = 0, date = Some 0, val = Some 100\<rparr>, \<lparr>idx = 1, date = Some 1, val = Some 101\<rparr>,
      \<lparr>idx = 2, date = Some 2, val = Some 102\<rparr>, \<lparr>idx = 3, date = Some 3, val = Some 103\<rparr>,
      \<lparr>idx = 4, date = Some 4, val = Some 104\<rparr>, \<lparr>idx = 5, date = Some 5, val = Some 105\<rparr>,
      \<lparr>idx = 6, date = Some 6, val = Some 106\<rparr>, \<lparr>idx = 7, date = Some 7, val = Some 107\<rparr>,
      \<lparr>idx = 8, date = Some 8, val = Some 108\<rparr>, \<lparr>idx = 9, date = Some 8, val = Some 109\<rparr>,
      \<lparr>idx = 10, date = Some 9, val = Some 110\<rparr>, \<lparr>idx = 11, date = Some 10, val = Some 111\<rparr>,
      \<lparr>idx = 12, date = Some 11, val = Some 112\<rparr>, \<lparr>idx = 13, date = Some 12, val = Some 113\<rparr>,
      \<lparr>idx = 14, date = Some 13, val = Some 114\<rparr>, \<lparr>idx = 15, date = Some 14, val = Some 115\<rparr>,
      \<lparr>idx = 16, date = Some 15, val = Some 116\<rparr>]"
  by (simp add: tied_series_def upt_rec)

lemma tied_series_swapped_rows:
  "tied_series_swapped =
     [\<lparr>idx = 0, date = Some 0, val = Some 100\<rparr>, \<lparr>idx = 1, date = Some 1, val = Some 101\<rparr>,
      \<lparr>idx = 2, date = Some 2, val = Some 102\<rparr>, \<lparr>idx = 3, date = Some 3, val = Some 103\<rparr>,
      \<lparr>idx = 4, date = Some 4, val = Some 104\<rparr>, \<lparr>idx = 5, date = Some 5, val = Some 105\<rparr>,
      \<lparr>idx = 6, date = Some 6, val = Some 106\<rparr>, \<lparr>idx = 7, date = Some 7, val = Some 107\<rparr>,
      \<lparr>idx = 9, date = Some 8, val = Some 109\<rparr>, \<lparr>idx = 8, date = Some 8, val = Some 108\<rparr>,
      \<lparr>idx = 10, date = Some 9, val = Some 110\<rparr>, \<lparr>idx = 11, date = Some 10, val = Some 111\<rparr>,
      \<lparr>idx = 12, date = Some 11, val = Some 112\<rparr>, \<lparr>idx = 13, date = Some 12, val = Some 113\<rparr>,
      \<lparr>idx = 14, date = Some 13, val = Some 114\<rparr>, \<lparr>idx = 15, date = Some 14, val = Some 115\<rparr>,
      \<lparr>idx = 16, date = Some 15, val = Some 116\<rparr>]"
  unfolding tied_series_swapped_def tied_series_rows by simp

lemma tied_series_sorted: "sorted (map (\<lambda>r. date_key (date r)) tied_series)"
  unfolding tied_series_rows by (simp add: date_key_def)

lemma tied_series_swapped_sorted: "sorted (map (\<lambda>r. date_key (date r)) tied_series_swapped)"
  unfolding tied_series_swapped_rows by (simp add: date_key_def)

lemma tied_series_mset: "mset tied_series_swapped = mset tied_series"
  unfolding tied_series_swapped_def by (rule mset_swap) simp_all

lemma tied_series_keys:
  "map (\<lambda>r. date_key (date r)) tied_series_swapped = map (\<lambda>r. date_key (date r)) tied_series"
  unfolding tied_series_swapped_rows tied_series_rows by simp

lemma tied_series_key:
  assumes "i < 17"
  shows "map (\<lambda>r. date_key (date r)) tied_series ! i = (0, if i \<le> 8 then int i else int i - 1)"
  using assms by (simp add: tied_series_def date_key_def)

text \<open>
  An argsort leaves the rows of \<open>tied_series\<close> where they are or exchanges the two rows
  of equal date, and it does the same to \<open>tied_series_swapped\<close>, whose dates are the same.
\<close>

lemma tied_positions:
  assumes "argsort_ok arg"
  shows "arg (map (\<lambda>r. date_key (date r)) tied_series) = [0..<17] \<or>
         arg (map (\<lambda>r. date_key (date r)) tied_series) = [0..<17][8 := 9, 9 := 8]"
proof -
  let ?K = "map (\<lambda>r. date_key (date r)) tied_series"
  let ?is = "arg ?K"
  have lK: "length ?K = 17" by simp
  note p = argsort_positions [OF assms, of ?K]
  have len: "length ?is = 17" using p(3) by simp
  have bound: "?is ! j < 17" if "j < 17" for j
  proof -
    have "?is ! j \<in> set ?is" using that len by simp
    with p(4) have "?is ! j < length ?K" by blast
    then show ?thesis by (simp only: lK)
  qed
  have "mset (map ((!) ?K) ?is) = mset (map ((!) ?K) [0..<length ?K])"
    using p(1) by (simp only: mset_map)
  then have "mset (map ((!) ?K) ?is) = mset ?K" by (simp only: map_nth)
  then have "sort ?K = map ((!) ?K) ?is" using p(2) by (rule properties_for_sort)
  moreover have "sort ?K = ?K" using tied_series_sorted by (rule sort_key_id_if_sorted [of "\<lambda>x. x", simplified])
  ultimately have same: "map ((!) ?K) ?is = ?K" by simp
  have key: "?K ! (?is ! j) = ?K ! j" if "j < 17" for j
  proof -
    have "map ((!) ?K) ?is ! j = ?K ! (?is ! j)" using that len by simp
    then show ?thesis by (simp only: same)
  qed
  have eq: "(if ?is ! j \<le> 8 then int (?is ! j) else int (?is ! j) - 1) = (if j \<le> 8 then int j else int j - 1)"
    if "j < 17" for j
    using key [OF that] by (simp only: tied_series_key [OF that] tied_series_key [OF bound [OF that]]) simp
  have fixed: "?is ! j = j" if "j < 17" "j \<noteq> 8" "j \<noteq> 9" for j
    using eq [OF that(1)] that(2,3) by (auto split: if_splits)
  have e8: "?is ! 8 = 8 \<or> ?is ! 8 = 9" using eq [of 8] by (auto split: if_splits)
  have e9: "?is ! 9 = 8 \<or> ?is ! 9 = 9" using eq [of 9] by (auto split: if_splits)
  have ne: "?is ! 8 \<noteq> ?is ! 9"
    using p(5) len by (simp add: nth_eq_iff_index_eq)
  from e8 show ?thesis
  proof
    assume a: "?is ! 8 = 8"
    with e9 ne have b: "?is ! 9 = 9" by simp
    have "?is = [0..<17]"
    proof (rule nth_equalityI)
      show "length ?is = length [0..<17]" using len by simp
      fix j assume "j < length ?is"
      then have j: "j < 17" using len by simp
      then have "?is ! j = j" using fixed [OF j] a b by (cases "j = 8"; cases "j = 9") simp_all
      with j show "?is ! j = [0..<17] ! j" by simp
    qed
    then show ?thesis by (rule disjI1)
  next
    assume a: "?is ! 8 = 9"
    with e9 ne have b: "?is ! 9 = 8" by simp
    have "?is = [0..<17][8 := 9, 9 := 8]"
    proof (rule nth_equalityI)
      show "length ?is = length ([0..<17][8 := 9, 9 := 8])" using len by simp
      fix j assume "j < length ?is"
      then have j: "j < 17" using len by simp
      then show "?is ! j = [0..<17][8 := 9, 9 := 8] ! j"
        using fixed [OF j] a b by (cases "j = 8"; cases "j = 9") (simp_all add: nth_list_update)
    qed
    then show ?thesis by (rule disjI2)
  qed
qed

lemma tied_sorts:
  assumes "argsort_ok arg"
  shows "sort_values arg tied_series = tied_series \<and>
           sort_values arg tied_series_swapped = tied_series_swapped \<or>
         sort_values arg tied_series = tied_series_swapped \<and>
           sort_values arg tied_series_swapped = tied_series"
proof -
  have l: "length tied_series = 17" "length tied_series_swapped = 17"
    by (simp_all add: tied_series_swapped_def)
  have id: "map ((!) df) [0..<17] = df" if "length df = 17" for df :: "obs list"
    using map_nth [of df] by (simp only: that)
  have sw: "map ((!) tied_series) ([0..<17][8 := 9, 9 := 8]) = tied_series_swapped"
    "map ((!) tied_series_swapped) ([0..<17][8 := 9, 9 := 8]) = tied_series"
    unfolding tied_series_swapped_rows tied_series_rows by (simp_all add: upt_rec)
  from tied_positions [OF assms] show ?thesis
  proof
    assume "arg (map (\<lambda>r. date_key (date r)) tied_series) = [0..<17]"
    then have "sort_values arg tied_series = tied_series"
      "sort_values arg tied_series_swapped = tied_series_swapped"
      by (simp_all only: sort_values_def tied_series_keys id [OF l(1)] id [OF l(2)])
    then show ?thesis by simp
  next
    assume "arg (map (\<lambda>r. date_key (date r)) tied_series) = [0..<17][8 := 9, 9 := 8]"
    then have "sort_values arg tied_series = tied_series_swapped"
      "sort_values arg tied_series_swapped = tied_series"
      by (simp_all only: sort_values_def tied_series_keys sw)
    then show ?thesis by simp
  qed
qed

lemma sort_tied: "sort_values argsort_rev tied_series = tied_series_swapped"
  unfolding tied_series_swapped_rows tied_series_rows
  by (simp add: sort_values_def argsort_rev_def date_key_def upt_rec)

lemma plain_table_val:
  assumes rows: "\<forall>r\<in>set (sort_values arg df). date r \<noteq> None \<and> (\<exists>v. val r = Some v \<and> 0 < v)"
    and j: "Suc (Suc j) < length (sort_values arg df)"
  obtains out where "buildFeatureMatrix arg df [] [] = Inr out"
    and "val (out ! j) = val (sort_values arg df ! Suc j)"
proof -
  have c: "clean arg df = sort_values arg df"
    unfolding clean_def using rows by (intro filter_True) auto
  have d: "\<forall>r\<in>set (clean arg df). date r \<noteq> None" using rows by (simp add: c)
  obtain pre where pre: "feature_table arg df [] [] = Inr pre"
    and out: "buildFeatureMatrix arg df [] [] =
           Inr (reset_index (map ((!) pre)
                  [nat (Max (set (1 # map (\<lambda>k. k + 1) [] @ [])))..<length (clean arg df) - 1]))"
    by (rule buildFeatureMatrix_rows [of "[]" "[]" arg df]) (simp_all add: d)
  let ?out = "reset_index (map ((!) pre) [1..<length (sort_values arg df) - 1])"
  have o: "buildFeatureMatrix arg df [] [] = Inr ?out" using out by (simp add: c)
  have t: "Suc j < length (clean arg df)" using j by (simp add: c)
  have "j < length (map ((!) pre) [1..<length (sort_values arg df) - 1])" using j by simp
  then have "?out ! j = (map ((!) pre) [1..<length (sort_values arg df) - 1] ! j)\<lparr>idx := int j\<rparr>"
    by (rule nth_reset_index)
  moreover have "map ((!) pre) [1..<length (sort_values arg df) - 1] ! j = pre ! Suc j" using j by simp
  ultimately have "val (?out ! j) = val (pre ! Suc j)" by simp
  also have "\<dots> = val (sort_values arg df ! Suc j)" by (simp add: feature_table_fields(4) [OF pre t] c)
  finally show ?thesis using o by (rule that [rotated])
qed

lemma tied_table:
  assumes "sort_values arg df = tied_series \<or> sort_values arg df = tied_series_swapped"
  obtains out where "buildFeatureMatrix arg df [] [] = Inr out"
    and "val (out ! 7) = (if sort_values arg df = tied_series then Some 108 else Some 109)"
proof -
  have r: "\<forall>r\<in>set (sort_values arg df). date r \<noteq> None \<and> (\<exists>v. val r = Some v \<and> 0 < v)"
    using assms unfolding tied_series_swapped_rows tied_series_rows by auto
  have l: "Suc (Suc 7) < length (sort_values arg df)"
    using assms unfolding tied_series_swapped_rows tied_series_rows by auto
  obtain out where out: "buildFeatureMatrix arg df [] [] = Inr out"
    and v: "val (out ! 7) = val (sort_values arg df ! Suc 7)"
    using r l by (rule plain_table_val)
  have ne: "tied_series_swapped \<noteq> tied_series"
    unfolding tied_series_swapped_rows tied_series_rows by simp
  have "val (tied_series ! Suc 7) = Some 108" "val (tied_series_swapped ! Suc 7) = Some 109"
    unfolding tied_series_swapped_rows tied_series_rows by simp_all
  with assms ne have "val (sort_values arg df ! Suc 7) =
      (if sort_values arg df = tied_series then Some 108 else Some 109)"
    by auto
  with out v show ?thesis by (intro that) simp_all
qed

lemma tied_tables_differ:
  assumes "argsort_ok arg"
  shows "buildFeatureMatrix arg tied_series_swapped [] [] \<noteq> buildFeatureMatrix arg tied_series [] []"
proof -
  have ne: "tied_series_swapped \<noteq> tied_series"
    unfolding tied_series_swapped_rows tied_series_rows by simp
  from tied_sorts [OF assms]
  have a: "sort_values arg tied_series = tied_series \<or> sort_values arg tied_series = tied_series_swapped"
    and b: "sort_values arg tied_series_swapped = tied_series \<or>
            sort_values arg tied_series_swapped = tied_series_swapped"
    and c: "sort_values arg tied_series_swapped \<noteq> sort_values arg tied_series"
    using ne by auto
  from a obtain out where out: "buildFeatureMatrix arg tied_series [] [] = Inr out"
    and v: "val (out ! 7) = (if sort_values arg tied_series = tied_series then Some 108 else Some 109)"
    by (rule tied_table)
  from b obtain out' where out': "buildFeatureMatrix arg tied_series_swapped [] [] = Inr out'"
    and v': "val (out' ! 7) =
      (if sort_values arg tied_series_swapped = tied_series then Some 108 else Some 109)"
    by (rule tied_table)
  from a b c v v' have "val (out ! 7) \<noteq> val (out' ! 7)" by auto
  then have "out' \<noteq> out" by auto
  with out out' show ?thesis by simp
qed

text \<open>
  C10, as stated: the table \<open>buildFeatureMatrix\<close> returns is the one obtained from the
  date-sorted permutation of the same input.  With two rows of the same date there are two
  such permutations, and the table depends on which one the function is given:
  \<open>tied_series\<close> and \<open>tied_series_swapped\<close> hold the same rows, both in date order,
  and whatever the argsort, the tables returned for them differ (in row 7 one holds the
  value 108 and the other 109).  Moreover the sort is not stable; an argsort that moves
  the rows of \<open>tied_series\<close>, as \<open>argsort_rev\<close> does, moves them back when it is given
  the sorted frame, so that the table of the sorted frame is not the table of the frame.
\<close>

theorem sorted_input_counterexample:
  "mset tied_series_swapped = mset tied_series \<and>
   sorted (map (\<lambda>r. date_key (date r)) tied_series) \<and>
   sorted (map (\<lambda>r. date_key (date r)) tied_series_swapped) \<and>
   \<not> (\<exists>arg. argsort_ok arg \<and>
        buildFeatureMatrix arg tied_series_swapped [] [] = buildFeatureMatrix arg tied_series [] []) \<and>
   \<not> (\<exists>arg. argsort_ok arg \<and> sort_values arg tied_series \<noteq> tied_series \<and>
        buildFeatureMatrix arg (sort_values arg tied_series) [] [] =
          buildFeatureMatrix arg tied_series [] []) \<and>
   argsort_ok argsort_rev \<and> sort_values argsort_rev tied_series \<noteq> tied_series"
proof (intro conjI notI)
  show "mset tied_series_swapped = mset tied_series" by (rule tied_series_mset)
  show "sorted (map (\<lambda>r. date_key (date r)) tied_series)" by (rule tied_series_sorted)
  show "sorted (map (\<lambda>r. date_key (date r)) tied_series_swapped)" by (rule tied_series_swapped_sorted)
  show False if "\<exists>arg. argsort_ok arg \<and>
        buildFeatureMatrix arg tied_series_swapped [] [] = buildFeatureMatrix arg tied_series [] []"
    using that tied_tables_differ by blast
  show False if "\<exists>arg. argsort_ok arg \<and> sort_values arg tied_series \<noteq> tied_series \<and>
        buildFeatureMatrix arg (sort_values arg tied_series) [] [] =
          buildFeatureMatrix arg tied_series [] []"
  proof -
    from that obtain arg where ok: "argsort_ok arg" and m: "sort_values arg tied_series \<noteq> tied_series"
      and e: "buildFeatureMatrix arg (sort_values arg tied_series) [] [] =
          buildFeatureMatrix arg tied_series [] []"
      by blast
    from tied_sorts [OF ok] m have "sort_values arg tied_series = tied_series_swapped" by blast
    with e tied_tables_differ [OF ok] show False by simp
  qed
  show "argsort_ok argsort_rev" by (rule argsort_ok_rev)
  show False if "sort_values argsort_rev tied_series = tied_series"
    using that unfolding sort_tied unfolding tied_series_swapped_rows tied_series_rows by simp
qed

text \<open>
  C10, amended.  \<open>buildFeatureMatrix\<close> sorts its input by date itself: when no two
  rows share a date, the table it returns for a frame is the one it returns for the frame
  sorted by date, and any reordering of the rows gives the same table.  With or without
  equal dates, the table is ascending by date and its index labels are
  \<open>0, 1, ..., m - 1\<close>.  This holds whatever the sort does with rows of equal date.
\<close>

theorem buildFeatureMatrix_sorts_input:
  assumes "argsort_ok arg"
  shows "(distinct (map date df) \<longrightarrow>
            buildFeatureMatrix arg (sort_values arg df) lags windows = buildFeatureMatrix arg df lags windows) \<and>
         (mset df' = mset df \<and> distinct (map date df) \<longrightarrow>
            buildFeatureMatrix arg df' lags windows = buildFeatureMatrix arg df lags windows) \<and>
         (buildFeatureMatrix arg df lags windows = Inr out \<longrightarrow>
            ascending_by_date out \<and> map idx out = map int [0..<length out])"
proof (intro conjI impI)
  show "buildFeatureMatrix arg (sort_values arg df) lags windows = buildFeatureMatrix arg df lags windows"
    if "distinct (map date df)"
  proof (rule buildFeatureMatrix_cong)
    have "mset (sort_values arg df) = mset df" using assms by (rule sort_values_mset)
    with assms show "sort_values arg (sort_values arg df) = sort_values arg df" using that by (rule sort_values_permutation)
  qed
  show "buildFeatureMatrix arg df' lags windows = buildFeatureMatrix arg df lags windows"
    if "mset df' = mset df \<and> distinct (map date df)"
  proof (rule buildFeatureMatrix_cong)
    from that have "mset df' = mset df" "distinct (map date df)" by simp_all
    with assms show "sort_values arg df' = sort_values arg df" by (rule sort_values_permutation)
  qed
  show "ascending_by_date out" if "buildFeatureMatrix arg df lags windows = Inr out"
    using assms that by (rule output_ascending(1))
  show "map idx out = map int [0..<length out]" if "buildFeatureMatrix arg df lags windows = Inr out"
    using assms that by (rule output_ascending(2))
qed

theorem buildFeatureMatrix_sorts_input_witness:
  "argsort_ok argsort_stable \<and> distinct (map date (growth_series 100 5)) \<and>
   mset (rev (growth_series 100 5)) = mset (growth_series 100 5) \<and>
   buildFeatureMatrix argsort_stable (sort_values argsort_stable (rev (growth_series 100 5))) [1] [2] =
     buildFeatureMatrix argsort_stable (rev (growth_series 100 5)) [1] [2] \<and>
   buildFeatureMatrix argsort_stable (rev (growth_series 100 5)) [1] [2] =
     buildFeatureMatrix argsort_stable (growth_series 100 5) [1] [2] \<and>
   (\<exists>out. buildFeatureMatrix argsort_stable (rev (growth_series 100 5)) [1] [2] = Inr out \<and>
      length out = 2 \<and> ascending_by_date out \<and> map idx out = map int [0..<length out])"
proof -
  note s = argsort_ok_stable
  have d: "distinct (map date (growth_series 100 5))" by (rule growth_series_distinct)
  have d': "distinct (map date (rev (growth_series 100 5)))"
    using d by (simp only: rev_map [symmetric] distinct_rev)
  have eq0: "buildFeatureMatrix argsort_stable (sort_values argsort_stable (rev (growth_series 100 5))) [1] [2] =
     buildFeatureMatrix argsort_stable (rev (growth_series 100 5)) [1] [2]"
    using buildFeatureMatrix_sorts_input [OF s, of "rev (growth_series 100 5)" "[1]" "[2]"] d'
    by blast
  have eq: "buildFeatureMatrix argsort_stable (rev (growth_series 100 5)) [1] [2] =
     buildFeatureMatrix argsort_stable (growth_series 100 5) [1] [2]"
    using buildFeatureMatrix_sorts_input [OF s, of "growth_series 100 5" "[1]" "[2]" "rev (growth_series 100 5)"] d
    by simp
  have "map_sum id length (buildFeatureMatrix argsort_stable (growth_series 100 5) [1] [2]) = Inr 2"
    using buildFeatureMatrix_length [of "[1]" "[2]" argsort_stable "growth_series 100 5"]
    by (simp add: clean_growth [OF s] growth_series_dates)
  then obtain out where out: "buildFeatureMatrix argsort_stable (rev (growth_series 100 5)) [1] [2] = Inr out"
    and len: "length out = 2"
    unfolding eq [symmetric]
    by (cases "buildFeatureMatrix argsort_stable (rev (growth_series 100 5)) [1] [2]") auto
  from buildFeatureMatrix_sorts_input [OF s, of "rev (growth_series 100 5)" "[1]" "[2]" _ out] out
  have "ascending_by_date out" "map idx out = map int [0..<length out]" by blast+
  with out len have ex: "\<exists>out. buildFeatureMatrix argsort_stable (rev (growth_series 100 5)) [1] [2] = Inr out \<and>
      length out = 2 \<and> ascending_by_date out \<and> map idx out = map int [0..<length out]"
    by blast
  have m: "mset (rev (growth_series 100 5)) = mset (growth_series 100 5)" by simp
  show ?thesis by (intro conjI) (rule s d m eq0 eq ex)+
qed

subsection \<open>Lags and windows that are not positive\<close>

lemma nonpositive_lag_column:
  assumes pre: "feature_table arg df lags windows = Inr pre"
    and j: "j < length lags" and k: "lags ! j \<le> 0" and t: "t < length pre"
  shows "r_lag (pre ! t) ! j =
           (if t + nat (- (lags ! j)) < length pre then log_return (pre ! (t + nat (- (lags ! j))))
            else None)"
proof -
  let ?lr = "log_return_col (clean arg df)"
  have len: "length pre = length (clean arg df)" using pre by (rule feature_table_length)
  have t': "t < length (clean arg df)" using t len by simp
  have n: "nat (int t - lags ! j) = t + nat (- (lags ! j))" using k by linarith
  have c: "(0 \<le> int t - lags ! j \<and> int t - lags ! j < int (length (clean arg df))) =
           (t + nat (- (lags ! j)) < length pre)"
    using k len by linarith
  have "r_lag (pre ! t) ! j = shifted (lags ! j) ?lr ! t"
    using j by (simp add: feature_table_fields(7) [OF pre t'])
  also have "\<dots> = (if t + nat (- (lags ! j)) < length pre then ?lr ! (t + nat (- (lags ! j))) else None)"
    using t' by (simp only: nth_shifted length_log_return_col c n)
  also have "\<dots> = (if t + nat (- (lags ! j)) < length pre
                     then log_return (pre ! (t + nat (- (lags ! j)))) else None)"
    by (simp add: len feature_table_fields(6) [OF pre])
  finally show ?thesis .
qed

lemma lag_cols_in_range:
  assumes "\<forall>k\<in>set lags. in_int64 k"
  shows "lag_cols lags lr = Inr (map (\<lambda>k. shifted k lr) lags)"
proof -
  have "\<not> isl (lag_cols lags lr)" using assms by (simp add: lag_cols_isl)
  then obtain cs where cs: "lag_cols lags lr = Inr cs" by (cases "lag_cols lags lr") auto
  then have "cs = map (\<lambda>k. shifted k lr) lags" by (rule lag_cols_Inr)
  with cs show ?thesis by simp
qed

lemma roll_cols_ValueError:
  assumes "\<forall>w\<in>set ws. w < 2 ^ 63" and "\<exists>w\<in>set ws. w < 0"
  shows "roll_cols ws lr = Inl ValueError"
  using assms
proof (induction ws)
  case Nil
  then show ?case by simp
next
  case (Cons w ws)
  show ?case
  proof (cases "w < 0")
    case True
    then show ?thesis by (simp add: rolling_def)
  next
    case False
    with Cons.prems have "roll_cols ws lr = Inl ValueError" by (intro Cons.IH) auto
    moreover have "in_int64 (int (nat w))" using False Cons.prems(1) by (simp add: in_int64_def)
    ultimately show ?thesis
      using False by (cases "lr = []") (auto simp: rolling_def rolling_mean_def rolling_std_def)
  qed
qed

lemma buildFeatureMatrix_ValueError:
  assumes "\<forall>k\<in>set lags. in_int64 k" and "\<forall>w\<in>set windows. w < 2 ^ 63"
    and "\<exists>w\<in>set windows. w < 0"
  shows "buildFeatureMatrix arg df lags windows = Inl ValueError"
  by (simp add: buildFeatureMatrix_def feature_table_def Let_def
      lag_cols_in_range [OF assms(1)] roll_cols_ValueError [OF assms(2,3)])

lemma buildFeatureMatrix_negative_window:
  assumes "\<exists>w\<in>set windows. w < 0"
  shows "isl (buildFeatureMatrix arg df lags windows)"
  using feature_table_negative_window [OF assms, of arg df lags]
  by (cases "feature_table arg df lags windows") (simp_all add: buildFeatureMatrix_def)

lemma buildFeatureMatrix_in_range:
  assumes "\<forall>k\<in>set lags. in_int64 k" and "\<forall>w\<in>set windows. 0 \<le> w \<and> w < 2 ^ 63"
  obtains out where "buildFeatureMatrix arg df lags windows = Inr out"
proof -
  from assms obtain pre where "feature_table arg df lags windows = Inr pre"
    by (rule feature_table_ok)
  then have "buildFeatureMatrix arg df lags windows = Inr (reset_index (dropna pre))"
    by (rule buildFeatureMatrix_eq)
  then show ?thesis by (rule that)
qed

text \<open>
  On a series without equal dates the table does not depend on the argsort.
\<close>

lemma growth_table_any_argsort:
  assumes "argsort_ok arg"
  shows "buildFeatureMatrix arg (growth_series v0 n) lags windows =
           buildFeatureMatrix argsort_stable (growth_series v0 n) lags windows"
proof (rule buildFeatureMatrix_cong_args)
  show "sort_values arg (growth_series v0 n) = sort_values argsort_stable (growth_series v0 n)"
    by (simp only: sort_values_growth [OF assms] sort_values_growth [OF argsort_ok_stable])
qed

text \<open>
  C7, as stated: a lag or a window that is not positive makes the build fail with
  \<open>ConfigError\<close>.  \<open>buildFeatureMatrix\<close> accepts the lags \<open>-1\<close> and \<open>0\<close> and
  returns rows computed with them, and it accepts the window \<open>0\<close> and returns an empty
  table.  The series has no two rows of equal date, so this is so for every argsort.
\<close>

theorem nonpositive_accepted_counterexample:
  "argsort_ok argsort_stable \<and>
   map_sum id length (buildFeatureMatrix argsort_stable (growth_series 100 5) [- 1] [2]) = Inr 2 \<and>
   map_sum id length (buildFeatureMatrix argsort_stable (growth_series 100 5) [0] [2]) = Inr 2 \<and>
   buildFeatureMatrix argsort_stable (growth_series 100 5) [1] [0] = Inr []"
proof (intro conjI)
  note s = argsort_ok_stable
  show "argsort_ok argsort_stable" by (rule s)
  show "map_sum id length (buildFeatureMatrix argsort_stable (growth_series 100 5) [- 1] [2]) = Inr 2"
    using buildFeatureMatrix_length [of "[- 1]" "[2]" argsort_stable "growth_series 100 5"]
    by (simp add: clean_growth [OF s] growth_series_dates)
  show "map_sum id length (buildFeatureMatrix argsort_stable (growth_series 100 5) [0] [2]) = Inr 2"
    using buildFeatureMatrix_length [of "[0]" "[2]" argsort_stable "growth_series 100 5"]
    by (simp add: clean_growth [OF s] growth_series_dates)
  obtain pre where pre: "feature_table argsort_stable (growth_series 100 5) [1] [0] = Inr pre"
    by (rule feature_table_growth [OF s, of 100 "[1]" "[0]" 5]) (simp_all add: in_int64_def)
  then show "buildFeatureMatrix argsort_stable (growth_series 100 5) [1] [0] = Inr []"
    by (rule window_one_empty) simp
qed

text \<open>
  C7, amended: nothing checks the lags or the windows, and no error of the function is a
  \<open>ConfigError\<close>.  A negative window makes the build fail; the error is the
  \<open>ValueError\<close> of \<open>rolling\<close> when every lag fits \<open>int64\<close> and no window exceeds it.
  With every lag in \<open>int64\<close> and every window in \<open>0 .. 2^63 - 1\<close> the build returns a
  table, also when a lag is zero or negative or a window is zero.  A lag \<open>k \<le> 0\<close>
  gives the column \<open>r_lag_k[t] = log_return[t + |k|]\<close>: the row's own log return for
  \<open>k = 0\<close> and a later one for \<open>k < 0\<close>.  When the build returns a table and some
  window is 0 or 1, the table is empty.
\<close>

theorem nonpositive_parameters:
  "((\<exists>w\<in>set windows. w < 0) \<longrightarrow> isl (buildFeatureMatrix arg df lags windows)) \<and>
   ((\<forall>k\<in>set lags. in_int64 k) \<and> (\<forall>w\<in>set windows. w < 2 ^ 63) \<and> (\<exists>w\<in>set windows. w < 0) \<longrightarrow>
      buildFeatureMatrix arg df lags windows = Inl ValueError) \<and>
   ((\<forall>k\<in>set lags. in_int64 k) \<and> (\<forall>w\<in>set windows. 0 \<le> w \<and> w < 2 ^ 63) \<longrightarrow>
      (\<exists>out. buildFeatureMatrix arg df lags windows = Inr out)) \<and>
   (feature_table arg df lags windows = Inr pre \<and> j < length lags \<and> lags ! j \<le> 0 \<and> t < length pre \<longrightarrow>
      r_lag (pre ! t) ! j =
        (if t + nat (- (lags ! j)) < length pre then log_return (pre ! (t + nat (- (lags ! j))))
         else None)) \<and>
   (buildFeatureMatrix arg df lags windows = Inr out \<and> (\<exists>w\<in>set windows. w < 2) \<longrightarrow> out = [])"
proof (intro conjI impI)
  show "isl (buildFeatureMatrix arg df lags windows)" if "\<exists>w\<in>set windows. w < 0"
    using that by (rule buildFeatureMatrix_negative_window)
  show "buildFeatureMatrix arg df lags windows = Inl ValueError"
    if "(\<forall>k\<in>set lags. in_int64 k) \<and> (\<forall>w\<in>set windows. w < 2 ^ 63) \<and> (\<exists>w\<in>set windows. w < 0)"
  proof -
    from that have "\<forall>k\<in>set lags. in_int64 k" "\<forall>w\<in>set windows. w < 2 ^ 63" "\<exists>w\<in>set windows. w < 0"
      by blast+
    then show ?thesis by (rule buildFeatureMatrix_ValueError)
  qed
  show "\<exists>out. buildFeatureMatrix arg df lags windows = Inr out"
    if "(\<forall>k\<in>set lags. in_int64 k) \<and> (\<forall>w\<in>set windows. 0 \<le> w \<and> w < 2 ^ 63)"
  proof -
    from that have "\<forall>k\<in>set lags. in_int64 k" "\<forall>w\<in>set windows. 0 \<le> w \<and> w < 2 ^ 63" by blast+
    then obtain out' where "buildFeatureMatrix arg df lags windows = Inr out'"
      by (rule buildFeatureMatrix_in_range)
    then show ?thesis by blast
  qed
  show "r_lag (pre ! t) ! j =
        (if t + nat (- (lags ! j)) < length pre then log_return (pre ! (t + nat (- (lags ! j))))
         else None)"
    if "feature_table arg df lags windows = Inr pre \<and> j < length lags \<and> lags ! j \<le> 0 \<and> t < length pre"
  proof -
    from that have "feature_table arg df lags windows = Inr pre" "j < length lags" "lags ! j \<le> 0"
      "t < length pre" by simp_all
    then show ?thesis by (rule nonpositive_lag_column)
  qed
  show "out = []"
    if h: "buildFeatureMatrix arg df lags windows = Inr out \<and> (\<exists>w\<in>set windows. w < 2)"
  proof -
    from h obtain pre' where "feature_table arg df lags windows = Inr pre'"
      by (auto elim: buildFeatureMatrix_Inr)
    then have "buildFeatureMatrix arg df lags windows = Inr []"
      using h by (intro window_one_empty) simp_all
    with h show ?thesis by simp
  qed
qed

theorem nonpositive_parameters_witness:
  "buildFeatureMatrix argsort_stable (growth_series 100 5) [1] [- 3] = Inl ValueError \<and>
   isl (buildFeatureMatrix argsort_stable (growth_series 100 5) [2 ^ 63] [- 3]) \<and>
   (\<exists>out. buildFeatureMatrix argsort_stable (growth_series 100 5) [- 1, 0] [0] = Inr out \<and> out = []) \<and>
   (\<exists>pre. feature_table argsort_stable (growth_series 100 5) [- 1] [2] = Inr pre \<and>
      r_lag (pre ! 2) ! 0 = log_return (pre ! 3) \<and> r_lag (pre ! 2) ! 0 = y_next_return (pre ! 2))"
proof -
  note s = argsort_ok_stable
  obtain pre where pre: "feature_table argsort_stable (growth_series 100 5) [- 1] [2] = Inr pre"
    and len: "length pre = 5"
    by (rule feature_table_growth [OF s, of 100 "[- 1]" "[2]" 5]) (simp_all add: in_int64_def)
  have "r_lag (pre ! 2) ! 0 = log_return (pre ! 3)"
    using nonpositive_parameters [of "[2]" argsort_stable "growth_series 100 5" "[- 1]" pre 0 2] pre len
    by simp
  moreover have "y_next_return (pre ! 2) = log_return (pre ! 3)"
  proof -
    have "Suc 2 < length (clean argsort_stable (growth_series 100 5))"
      by (simp add: clean_growth [OF s])
    with pre obtain v0 v1 where "y_next_return (pre ! 2) = log_return (pre ! Suc 2)"
      by (rule target_value)
    then show ?thesis by (simp add: numeral_3_eq_3)
  qed
  ultimately have a: "\<exists>pre. feature_table argsort_stable (growth_series 100 5) [- 1] [2] = Inr pre \<and>
      r_lag (pre ! 2) ! 0 = log_return (pre ! 3) \<and> r_lag (pre ! 2) ! 0 = y_next_return (pre ! 2)"
    using pre by auto
  have b: "buildFeatureMatrix argsort_stable (growth_series 100 5) [1] [- 3] = Inl ValueError"
    using nonpositive_parameters [of "[- 3]" argsort_stable "growth_series 100 5" "[1]"]
    by (simp add: in_int64_def)
  have c: "isl (buildFeatureMatrix argsort_stable (growth_series 100 5) [2 ^ 63] [- 3])"
    using nonpositive_parameters [of "[- 3]" argsort_stable "growth_series 100 5" "[2 ^ 63]"]
    by simp
  have "\<exists>out. buildFeatureMatrix argsort_stable (growth_series 100 5) [- 1, 0] [0] = Inr out"
    using nonpositive_parameters [of "[0]" argsort_stable "growth_series 100 5" "[- 1, 0]"]
    by (simp add: in_int64_def)
  then obtain out where o: "buildFeatureMatrix argsort_stable (growth_series 100 5) [- 1, 0] [0] = Inr out"
    by blast
  have "out = []"
    using nonpositive_parameters [of "[0]" argsort_stable "growth_series 100 5" "[- 1, 0]" _ _ _ out] o
    by simp
  with o have d: "\<exists>out. buildFeatureMatrix argsort_stable (growth_series 100 5) [- 1, 0] [0] = Inr out \<and> out = []"
    by blast
  show ?thesis by (intro conjI) (rule a b c d)+
qed

text \<open>
  The table with tied dates used for the split is one that \<open>buildFeatureMatrix\<close> returns,
  in whichever order the sort leaves the two rows of equal date.
\<close>

lemma sorted_flat:
  assumes "argsort_ok arg"
  shows "map date (sort_values arg flat_series) = [Some 0, Some 1, Some 1, Some 2]"
    and "map val (sort_values arg flat_series) = [Some 1, Some 1, Some 1, Some 1]"
proof -
  let ?s = "sort_values arg flat_series"
  have m: "mset ?s = mset flat_series" using assms by (rule sort_values_mset)
  have "mset (map (\<lambda>r. date_key (date r)) ?s) = mset (map (\<lambda>r. date_key (date r)) flat_series)"
    by (simp only: mset_map m)
  moreover have "sorted (map (\<lambda>r. date_key (date r)) ?s)" using assms by (rule sort_values_sorted)
  ultimately have "sort (map (\<lambda>r. date_key (date r)) flat_series) = map (\<lambda>r. date_key (date r)) ?s"
    by (rule properties_for_sort)
  moreover have "sort (map (\<lambda>r. date_key (date r)) flat_series) = [(0, 0), (0, 1), (0, 1), (0, 2)]"
    by (simp add: flat_series_def date_key_def)
  ultimately have k: "map (\<lambda>r. date_key (date r)) ?s = [(0, 0), (0, 1), (0, 1), (0, 2)]"
    by (simp only: )
  have "map date_key [Some 0, Some 1, Some 1, Some 2] = [(0, 0), (0, 1), (0, 1), (0, 2)]"
    by (simp add: date_key_def)
  moreover have "map date_key (map date ?s) = map (\<lambda>r. date_key (date r)) ?s" by simp
  ultimately have "map date_key (map date ?s) = map date_key [Some 0, Some 1, Some 1, Some 2]"
    by (simp only: k)
  then show "map date ?s = [Some 0, Some 1, Some 1, Some 2]"
    by (simp only: inj_map_eq_map [OF date_key_inj])
  have "length (map (\<lambda>r. date_key (date r)) ?s) = 4" unfolding k by simp
  then have l: "length ?s = 4" by simp
  have "set ?s = set flat_series" using m by (rule mset_eq_setD)
  then have "\<forall>r\<in>set ?s. val r = Some 1" by (simp add: flat_series_def)
  then have "map val ?s = replicate (length ?s) (Some 1)"
    by (simp add: map_replicate_const [symmetric] cong: map_cong)
  then show "map val ?s = [Some 1, Some 1, Some 1, Some 1]"
    by (simp add: l eval_nat_numeral)
qed

lemma tied_rows_reached:
  assumes "argsort_ok arg"
  shows "buildFeatureMatrix arg flat_series [] [] = Inr tied_rows"
proof -
  let ?s = "sort_values arg flat_series"
  note dates = sorted_flat(1) [OF assms] and vals = sorted_flat(2) [OF assms]
  have "length (map date ?s) = 4" unfolding dates by simp
  then have l: "length ?s = 4" by simp
  have v: "val (?s ! t) = Some 1" if "t < 4" for t
  proof -
    have "val (?s ! t) = map val ?s ! t" using that l by simp
    also have "\<dots> = Some 1" using that unfolding vals by (cases t rule: nat.exhaust) (auto simp: nth_Cons split: nat.splits)
    finally show ?thesis .
  qed
  have d1: "date (?s ! Suc 0) = Some 1"
  proof -
    have "date (?s ! Suc 0) = map date ?s ! Suc 0" using l by simp
    then show ?thesis unfolding dates by simp
  qed
  have d2: "date (?s ! 2) = Some 1"
  proof -
    have "date (?s ! 2) = map date ?s ! 2" using l by simp
    then show ?thesis unfolding dates by simp
  qed
  have "\<forall>r\<in>set ?s. val r = Some 1"
    using v l by (auto simp: in_set_conv_nth)
  then have c: "clean arg flat_series = ?s"
    unfolding clean_def by (intro filter_True) simp
  have "\<forall>d\<in>set (map date ?s). d \<noteq> None" unfolding dates by simp
  then have d: "\<forall>r\<in>set (clean arg flat_series). date r \<noteq> None" by (simp add: c)
  have lp: "log_price_col ?s = [Some 0, Some 0, Some 0, Some 0]"
  proof -
    have "log_price_col ?s = map (map_option ln) (map val ?s)" by (simp add: log_price_col_def)
    then show ?thesis unfolding vals by simp
  qed
  have lr: "log_return_col ?s = [None, Some 0, Some 0, Some 0]"
    by (simp add: log_return_col_def lp diff_def fsub_def upt_rec)
  obtain pre where pre: "feature_table arg flat_series [] [] = Inr pre"
    and out: "buildFeatureMatrix arg flat_series [] [] =
           Inr (reset_index (map ((!) pre)
                  [nat (Max (set (1 # map (\<lambda>k. k + 1) [] @ [])))..<length (clean arg flat_series) - 1]))"
    by (rule buildFeatureMatrix_rows [of "[]" "[]" arg flat_series]) (simp_all add: d)
  have t1: "Suc 0 < length (clean arg flat_series)" and t2: "2 < length (clean arg flat_series)"
    by (simp_all add: c l)
  note f1 = feature_table_fields [OF pre t1, unfolded c lr lp]
  note f2 = feature_table_fields [OF pre t2, unfolded c lr lp]
  have r1: "(pre ! Suc 0)\<lparr>idx := 0\<rparr> =
      \<lparr>idx = 0, date = Some 1, val = Some 1, log_price = Some 0, log_return = Some 0,
       r_lag = [], r_roll_mean = [], r_roll_std = [], y_next_return = Some 0\<rparr>"
    by (rule frow.equality) (simp_all add: f1 shifted_def d1 v)
  have r2: "(pre ! 2)\<lparr>idx := 1\<rparr> =
      \<lparr>idx = 1, date = Some 1, val = Some 1, log_price = Some 0, log_return = Some 0,
       r_lag = [], r_roll_mean = [], r_roll_std = [], y_next_return = Some 0\<rparr>"
    by (rule frow.equality) (simp_all add: f2 shifted_def d2 v)
  have "[nat (Max (set (1 # map (\<lambda>k. k + 1) [] @ [])))..<length (clean arg flat_series) - 1] = [1, 2]"
    by (simp add: c l upt_rec)
  then show ?thesis
    by (simp add: out reset_index_def r1 r2 tied_rows_def upt_rec)
qed

end
